theory Spec2Isabelle
  imports Main "HOL-Library.Sublist"
begin

section \<open>Python strings\<close>

text \<open>
  A Python \<^verbatim>\<open>str\<close> is a sequence of Unicode code points. It is modelled as a list of
  natural numbers, one per code point, so that the non-ASCII literals of
  \<^verbatim>\<open>clean_data.py\<close> (for instance U+201A in the trademark glyph) are ordinary elements.
  \<open>u ''abc''\<close> is the text of an ASCII literal.
\<close>

type_synonym pystr = "nat list"

abbreviation u :: "string \<Rightarrow> pystr" where
  "u s \<equiv> map of_char s"

text \<open>The single quote \<^verbatim>\<open>'\<close>, the backslash and the line feed.\<close>

abbreviation SQ :: nat where "SQ \<equiv> 39"
abbreviation BSL :: nat where "BSL \<equiv> 92"
abbreviation LF :: nat where "LF \<equiv> 10"
abbreviation SPC :: nat where "SPC \<equiv> 32"

text \<open>
  \<^verbatim>\<open>str.isspace\<close> on one code point; \<^verbatim>\<open>\s\<close> of the \<^verbatim>\<open>re\<close> module on \<^verbatim>\<open>str\<close>
  patterns and \<^verbatim>\<open>str.strip()\<close> use the same set.
\<close>

definition is_space :: "nat \<Rightarrow> bool" where
  "is_space c \<longleftrightarrow>
     (9 \<le> c \<and> c \<le> 13) \<or> (28 \<le> c \<and> c \<le> 32) \<or> c = 133 \<or> c = 160 \<or> c = 5760 \<or>
     (8192 \<le> c \<and> c \<le> 8202) \<or> c = 8232 \<or> c = 8233 \<or> c = 8239 \<or> c = 8287 \<or> c = 12288"

text \<open>
  The tables of the Unicode database that the Python runtime consults for code points
  outside ASCII are not part of the repository; they are a parameter. \<open>ud_digit\<close> is
  category Nd (\<^verbatim>\<open>\d\<close>), \<open>ud_alnum\<close> is \<^verbatim>\<open>str.isalnum\<close> (\<^verbatim>\<open>\w\<close> without the underscore),
  \<open>ud_capitalize\<close> is \<^verbatim>\<open>str.capitalize\<close> on a word that has a non-ASCII code point.
\<close>

record unicode_db =
  ud_digit :: "nat \<Rightarrow> bool"
  ud_alnum :: "nat \<Rightarrow> bool"
  ud_capitalize :: "pystr \<Rightarrow> pystr"

definition is_digit :: "unicode_db \<Rightarrow> nat \<Rightarrow> bool" where
  "is_digit U c \<longleftrightarrow> (if c < 128 then 48 \<le> c \<and> c \<le> 57 else ud_digit U c)"

subsection \<open>\<^verbatim>\<open>str.replace\<close>\<close>

text \<open>
  \<^verbatim>\<open>s.replace(old, new)\<close> scans from the left and replaces the non-overlapping
  occurrences of \<^verbatim>\<open>old\<close>. For an empty \<^verbatim>\<open>old\<close> Python puts \<^verbatim>\<open>new\<close> before every
  code point and at the end.
\<close>

function replace_ne :: "pystr \<Rightarrow> pystr \<Rightarrow> pystr \<Rightarrow> pystr" where
  "replace_ne old new [] = []"
| "replace_ne old new (c # s) =
     (if old \<noteq> [] \<and> prefix old (c # s)
      then new @ replace_ne old new (drop (length old) (c # s))
      else c # replace_ne old new s)"
  by pat_completeness auto
termination
  by (relation "measure (\<lambda>(old, new, s). length s)") auto

definition replace :: "pystr \<Rightarrow> pystr \<Rightarrow> pystr \<Rightarrow> pystr" where
  "replace old new s =
     (if old = [] then new @ concat (map (\<lambda>c. c # new) s) else replace_ne old new s)"

subsection \<open>\<^verbatim>\<open>str.strip\<close> and \<^verbatim>\<open>str.rstrip\<close>\<close>

definition lstrip :: "pystr \<Rightarrow> pystr" where
  "lstrip s = dropWhile is_space s"

definition rstrip :: "pystr \<Rightarrow> pystr" where
  "rstrip s = rev (dropWhile is_space (rev s))"

definition strip :: "pystr \<Rightarrow> pystr" where
  "strip s = rstrip (lstrip s)"

definition rstrip_char :: "nat \<Rightarrow> pystr \<Rightarrow> pystr" where
  "rstrip_char c s = rev (dropWhile (\<lambda>d. d = c) (rev s))"

definition strip_char :: "nat \<Rightarrow> pystr \<Rightarrow> pystr" where
  "strip_char c s = rstrip_char c (dropWhile (\<lambda>d. d = c) s)"

section \<open>The cleaning steps of \<^verbatim>\<open>clean_sql_data\<close>\<close>

subsection \<open>Step 4: \<^verbatim>\<open>fix_newlines_and_formatting\<close>\<close>

text \<open>\<^verbatim>\<open>re.sub(r'\s+', ' ', text)\<close>: every maximal run of whitespace becomes one space.\<close>

function collapse_ws :: "pystr \<Rightarrow> pystr" where
  "collapse_ws [] = []"
| "collapse_ws (c # s) =
     (if is_space c then SPC # collapse_ws (dropWhile is_space s) else c # collapse_ws s)"
  by pat_completeness auto
termination
  by (relation "measure length") (auto simp: length_dropWhile_le less_Suc_eq_le)

definition fix_newlines_and_formatting :: "pystr \<Rightarrow> pystr" where
  "fix_newlines_and_formatting text0 =
     (let text1 = replace [BSL, 110] [LF] text0;
          text2 = replace [LF] [SPC] text1;
          text3 = collapse_ws text2;
          text4 = replace [172, 169] (u ''(c)'') text3;
          text5 = replace [172, 198] (u ''(R)'') text4;
          text6 = replace [8218, 209, 162] (u ''(TM)'') text5
      in text6)"

subsection \<open>Step 3: \<^verbatim>\<open>fix_apostrophes\<close>\<close>

text \<open>
  The dictionary \<^verbatim>\<open>apostrophe_fixes\<close>, in insertion order (the order in which
  \<^verbatim>\<open>.items()\<close> enumerates it). \<open>fix_of a b\<close> is the entry
  \<^verbatim>\<open>"a'b": "a''b"\<close>.
\<close>

definition fix_of :: "string \<Rightarrow> string \<Rightarrow> pystr \<times> pystr" where
  "fix_of a b = (u a @ [SQ] @ u b, u a @ [SQ, SQ] @ u b)"

definition apostrophe_fixes :: "(pystr \<times> pystr) list" where
  "apostrophe_fixes =
   [fix_of ''don'' ''t'', fix_of ''won'' ''t'', fix_of ''can'' ''t'',
    fix_of ''isn'' ''t'', fix_of ''aren'' ''t'', fix_of ''wasn'' ''t'',
    fix_of ''weren'' ''t'', fix_of ''doesn'' ''t'', fix_of ''haven'' ''t'',
    fix_of ''hasn'' ''t'', fix_of ''hadn'' ''t'', fix_of ''wouldn'' ''t'',
    fix_of ''shouldn'' ''t'', fix_of ''couldn'' ''t'',
    fix_of ''it'' ''s'', fix_of ''that'' ''s'', fix_of ''what'' ''s'',
    fix_of ''here'' ''s'', fix_of ''there'' ''s'', fix_of ''where'' ''s'',
    fix_of ''let'' ''s'', fix_of ''who'' ''s'',
    fix_of ''you'' ''ll'', fix_of ''we'' ''ll'', fix_of ''they'' ''ll'',
    fix_of ''I'' ''ll'', fix_of ''he'' ''ll'', fix_of ''she'' ''ll'',
    fix_of ''you'' ''re'', fix_of ''we'' ''re'', fix_of ''they'' ''re'',
    fix_of ''I'' ''m'', fix_of ''you'' ''ve'', fix_of ''we'' ''ve'',
    fix_of ''they'' ''ve'', fix_of ''I'' ''ve'']"

text \<open>The \<^verbatim>\<open>for original, replacement in apostrophe_fixes.items()\<close> loop.\<close>

fun apply_fixes :: "(pystr \<times> pystr) list \<Rightarrow> pystr \<Rightarrow> pystr" where
  "apply_fixes [] text0 = text0"
| "apply_fixes ((original, replacement) # fixes) text0 =
     apply_fixes fixes (replace original replacement text0)"

definition fix_apostrophes :: "pystr \<Rightarrow> pystr" where
  "fix_apostrophes text0 = apply_fixes apostrophe_fixes text0"

subsection \<open>Step 5: \<^verbatim>\<open>fix_business_terms\<close>\<close>

text \<open>
  One attempt of the pattern \<^verbatim>\<open>'T(\d+)'\<close> at the head of the text: the digits of
  group 1 and the text after the closing quote. \<^verbatim>\<open>\d+\<close> is greedy, and a shorter run
  of digits is followed by a digit, never by the quote, so backtracking finds nothing else.
\<close>

definition match_tcode :: "unicode_db \<Rightarrow> pystr \<Rightarrow> (pystr \<times> pystr) option" where
  "match_tcode U s =
     (case s of
        a # b # s' \<Rightarrow>
          if a = SQ \<and> b = 84 then
            (let digits = takeWhile (is_digit U) s'; r = dropWhile (is_digit U) s'
             in case r of
                  [] \<Rightarrow> None
                | d # rest \<Rightarrow> if digits \<noteq> [] \<and> d = SQ then Some (digits, rest) else None)
          else None
      | _ \<Rightarrow> None)"

text \<open>\<^verbatim>\<open>re.sub(r"'T(\d+)'", r"''T\1''", text)\<close>: the matches are replaced from left to
  right, the scan resuming after each match.\<close>

function sub_tcode :: "unicode_db \<Rightarrow> pystr \<Rightarrow> pystr" where
  "sub_tcode U [] = []"
| "sub_tcode U (c # s) =
     (case match_tcode U (c # s) of
        Some (digits, rest) \<Rightarrow> [SQ, SQ, 84] @ digits @ [SQ, SQ] @ sub_tcode U rest
      | None \<Rightarrow> c # sub_tcode U s)"
  by pat_completeness auto
termination
proof (relation "measure (\<lambda>(U, s). length s)";
    clarsimp simp: match_tcode_def Let_def split: list.splits if_splits)
  fix U and s' y :: pystr
  assume "dropWhile (is_digit U) s' = SQ # y"
  then have "length (SQ # y) \<le> length s'"
    by (metis length_dropWhile_le)
  then show "length y < Suc (Suc (length s'))"
    by simp
qed

definition fix_business_terms :: "unicode_db \<Rightarrow> pystr \<Rightarrow> pystr" where
  "fix_business_terms U text0 =
     (let text1 = replace (u ''e&'') (u ''e&'') text0;
          text2 = replace (u ''UAE's'') (u ''UAE'' @ [SQ, SQ] @ u ''s'') text1;
          text3 = sub_tcode U text2;
          text4 = replace (u ''kids'' @ [BSL, SQ]) (u ''kids'' @ [SQ, SQ]) text3;
          text5 = replace [BSL, SQ] [SQ, SQ] text4
      in text5)"

subsection \<open>Step 2: \<^verbatim>\<open>fix_quotes_and_special_chars\<close>\<close>

text \<open>
  The pattern is \<^verbatim>\<open>'((?:[^'\\]|\\.|'')*?)'\<close>. \<open>scan_literal\<close> is the part of one match
  attempt after the opening quote: it returns group 1 and the text after the closing
  quote, or \<open>None\<close> when the attempt fails. The repetition is lazy and the closing quote
  ends the pattern, so the attempt closes at the first quote it stands on; otherwise
  exactly one alternative can consume the next code point: \<^verbatim>\<open>[^'\\]\<close> anything but a
  quote or a backslash, \<^verbatim>\<open>\\.\<close> a backslash and one code point that is not a line feed
  (the pattern is compiled without DOTALL). The alternative \<^verbatim>\<open>''\<close> starts with a quote and
  is never reached. With one way to proceed at every point, backtracking finds no other
  match.
\<close>

fun scan_literal :: "pystr \<Rightarrow> (pystr \<times> pystr) option" where
  "scan_literal [] = None"
| "scan_literal (c # s) =
     (if c = SQ then Some ([], s)
      else if c = BSL then
        (case s of
           [] \<Rightarrow> None
         | d # s' \<Rightarrow>
             if d = LF then None
             else (case scan_literal s' of
                     None \<Rightarrow> None
                   | Some (body, rest) \<Rightarrow> Some (c # d # body, rest)))
      else (case scan_literal s of
              None \<Rightarrow> None
            | Some (body, rest) \<Rightarrow> Some (c # body, rest)))"

text \<open>The callback \<^verbatim>\<open>replace_quotes_in_string\<close>, on group 1 of a match.\<close>

definition replace_quotes_in_string :: "pystr \<Rightarrow> pystr" where
  "replace_quotes_in_string content = [SQ] @ replace [SQ] [SQ, SQ] content @ [SQ]"

text \<open>
  \<^verbatim>\<open>re.sub(pattern, replace_quotes_in_string, text)\<close>: where no match starts, the code
  point is copied and the scan moves on by one.
\<close>

function fix_quotes_and_special_chars :: "pystr \<Rightarrow> pystr" where
  "fix_quotes_and_special_chars [] = []"
| "fix_quotes_and_special_chars (c # s) =
     (if c = SQ then
        (case scan_literal s of
           Some (content, rest) \<Rightarrow>
             replace_quotes_in_string content @ fix_quotes_and_special_chars rest
         | None \<Rightarrow> c # fix_quotes_and_special_chars s)
      else c # fix_quotes_and_special_chars s)"
  by pat_completeness auto
termination
proof (relation "measure length"; clarsimp)
  fix s content rest :: pystr
  assume "scan_literal s = Some (content, rest)"
  moreover have "scan_literal t = Some (b, r) \<Longrightarrow> length r < Suc (length t)" for t b r
    by (induction t arbitrary: b r rule: scan_literal.induct)
       (simp, simp split: if_splits list.splits option.splits, fastforce+)
  ultimately show "length rest < Suc (length s)"
    by simp
qed

subsection \<open>The chain applied to the values block\<close>

text \<open>The four assignments to \<^verbatim>\<open>cleaned_content\<close> in \<^verbatim>\<open>clean_sql_data\<close>.\<close>

definition clean_values :: "unicode_db \<Rightarrow> pystr \<Rightarrow> pystr" where
  "clean_values U values_content =
     fix_quotes_and_special_chars
       (fix_business_terms U (fix_apostrophes (fix_newlines_and_formatting values_content)))"


section \<open>Detection and extraction\<close>

subsection \<open>Matching under \<^verbatim>\<open>re.IGNORECASE\<close>\<close>

text \<open>
  A literal letter of a pattern compiled with \<^verbatim>\<open>re.IGNORECASE\<close> matches its two ASCII
  cases; in addition \<^verbatim>\<open>I\<close> matches U+0130 and U+0131, \<^verbatim>\<open>S\<close> matches U+017F and \<^verbatim>\<open>K\<close>
  matches U+212A. \<open>p\<close> is a code point of the pattern, written in upper case.
\<close>

definition ci_eq :: "nat \<Rightarrow> nat \<Rightarrow> bool" where
  "ci_eq p c \<longleftrightarrow>
     c = p \<or> (65 \<le> p \<and> p \<le> 90 \<and> c = p + 32) \<or>
     (p = 73 \<and> (c = 304 \<or> c = 305)) \<or> (p = 83 \<and> c = 383) \<or> (p = 75 \<and> c = 8490)"

text \<open>A literal part of a pattern at the head of the text: the text after it.\<close>

fun ci_literal :: "pystr \<Rightarrow> pystr \<Rightarrow> pystr option" where
  "ci_literal [] s = Some s"
| "ci_literal (p # ps) [] = None"
| "ci_literal (p # ps) (c # s) = (if ci_eq p c then ci_literal ps s else None)"

subsection \<open>Step 1: \<^verbatim>\<open>detect_table_and_columns\<close>\<close>

definition is_word :: "unicode_db \<Rightarrow> nat \<Rightarrow> bool" where
  "is_word U c \<longleftrightarrow>
     (if c < 128
      then (48 \<le> c \<and> c \<le> 57) \<or> (65 \<le> c \<and> c \<le> 90) \<or> (97 \<le> c \<and> c \<le> 122) \<or> c = 95
      else ud_alnum U c)"

text \<open>An optional backtick (\<^verbatim>\<open>`?\<close>, greedy).\<close>

definition skip_backtick :: "pystr \<Rightarrow> pystr" where
  "skip_backtick s = (case s of [] \<Rightarrow> [] | c # r \<Rightarrow> if c = 96 then r else c # r)"

text \<open>
  One attempt of \<^verbatim>\<open>INSERT INTO `?(\w+)`?\s*\(([^)]+)\)\<close> at the head of the text: groups 1
  and 2. Every greedy part takes its longest run, and what follows a shorter run is a code
  point of the run itself, which the next part of the pattern refuses; so the attempt has
  one way to succeed.
\<close>

definition match_insert :: "unicode_db \<Rightarrow> pystr \<Rightarrow> (pystr \<times> pystr) option" where
  "match_insert U s =
     (case ci_literal (u ''INSERT INTO '') s of
        None \<Rightarrow> None
      | Some s1 \<Rightarrow>
          (let s2 = skip_backtick s1;
               detected_table = takeWhile (is_word U) s2;
               s3 = dropWhile is_space (skip_backtick (dropWhile (is_word U) s2))
           in if detected_table = [] then None
              else case s3 of
                     [] \<Rightarrow> None
                   | c # s4 \<Rightarrow>
                       (let columns_raw = takeWhile (\<lambda>d. d \<noteq> 41) s4
                        in if c = 40 \<and> columns_raw \<noteq> [] \<and> dropWhile (\<lambda>d. d \<noteq> 41) s4 \<noteq> []
                           then Some (detected_table, columns_raw) else None)))"

text \<open>\<^verbatim>\<open>re.search\<close>: the attempt at the leftmost position where one succeeds.\<close>

fun search_insert :: "unicode_db \<Rightarrow> pystr \<Rightarrow> (pystr \<times> pystr) option" where
  "search_insert U [] = match_insert U []"
| "search_insert U (c # s) =
     (case match_insert U (c # s) of
        Some m \<Rightarrow> Some m
      | None \<Rightarrow> search_insert U s)"

text \<open>\<^verbatim>\<open>s.split(sep)\<close> for a separator of one code point.\<close>

fun split_on :: "nat \<Rightarrow> pystr \<Rightarrow> pystr list" where
  "split_on sep [] = [[]]"
| "split_on sep (c # s) =
     (if c = sep then [] # split_on sep s
      else case split_on sep s of
             [] \<Rightarrow> [[c]]
           | w # ws \<Rightarrow> (c # w) # ws)"

text \<open>
  \<^verbatim>\<open>word.capitalize()\<close>: the first code point in upper case, the others in lower case.
  On a word of ASCII code points this is spelled out; on any other word it is the
  parameter's.
\<close>

definition ascii_upper :: "nat \<Rightarrow> nat" where
  "ascii_upper c = (if 97 \<le> c \<and> c \<le> 122 then c - 32 else c)"

definition ascii_lower :: "nat \<Rightarrow> nat" where
  "ascii_lower c = (if 65 \<le> c \<and> c \<le> 90 then c + 32 else c)"

definition capitalize :: "unicode_db \<Rightarrow> pystr \<Rightarrow> pystr" where
  "capitalize U word =
     (if list_all (\<lambda>c. c < 128) word
      then (case word of [] \<Rightarrow> [] | c # r \<Rightarrow> ascii_upper c # map ascii_lower r)
      else ud_capitalize U word)"

definition detect_table_and_columns ::
    "unicode_db \<Rightarrow> pystr \<Rightarrow> pystr \<Rightarrow> pystr \<times> pystr list" where
  "detect_table_and_columns U table_name content =
     (case search_insert U content of
        Some (detected_table, columns_raw) \<Rightarrow>
          (let columns = map (\<lambda>col. strip_char 96 (strip col)) (split_on 44 columns_raw);
               table_pascal = concat (map (capitalize U) (split_on 95 detected_table))
           in (table_pascal, columns))
      | None \<Rightarrow> (table_name, []))"

subsection \<open>Step 6: \<^verbatim>\<open>extract_and_clean_values\<close>\<close>

text \<open>
  The end of the pattern, \<^verbatim>\<open>(.*?)(?:;|\n\s*--|\Z)\<close> under \<^verbatim>\<open>re.DOTALL\<close>: group 1 grows by
  one code point at a time until a semicolon, a line feed followed by optional whitespace
  and \<^verbatim>\<open>--\<close>, or the end of the text stands next.
\<close>

fun lazy_until :: "pystr \<Rightarrow> pystr" where
  "lazy_until [] = []"
| "lazy_until (c # s) =
     (if c = 59 then []
      else if c = LF \<and> prefix [45, 45] (dropWhile is_space s) then []
      else c # lazy_until s)"

text \<open>
  One attempt of \<^verbatim>\<open>VALUES\s+(.*?)(?:;|\n\s*--|\Z)\<close> at the head of the text: group 1.
  \<^verbatim>\<open>\s+\<close> takes the whole run of whitespace; the rest of the pattern then always matches,
  at the end of the text at the latest.
\<close>

definition match_values :: "pystr \<Rightarrow> pystr option" where
  "match_values s =
     (case ci_literal (u ''VALUES'') s of
        None \<Rightarrow> None
      | Some [] \<Rightarrow> None
      | Some (c # r) \<Rightarrow> if is_space c then Some (lazy_until (dropWhile is_space r)) else None)"

fun search_values :: "pystr \<Rightarrow> pystr option" where
  "search_values [] = match_values []"
| "search_values (c # s) =
     (case match_values (c # s) of
        Some g \<Rightarrow> Some g
      | None \<Rightarrow> search_values s)"

definition extract_and_clean_values :: "pystr \<Rightarrow> pystr" where
  "extract_and_clean_values content =
     (case search_values content of
        Some g \<Rightarrow>
          (let values_content = strip g;
               values_content = strip (rstrip_char 59 values_content)
           in values_content)
      | None \<Rightarrow> strip content)"

section \<open>The script and the top-level operation\<close>

definition default_addons_columns :: pystr where
  "default_addons_columns = u (''(internal_id, id, additional_details, amount, amount_details, ''
     @ ''best_seller, billing_cycle, brand_name, description, is_new, limited_offer, ''
     @ ''processed_at, product_name, run_id, seasonal_offer, segment, url, vat_applicable, ''
     @ ''vat_included, vat_percentage, vat_percentage_details, validity, coverage_amount, ''
     @ ''coverage_amount_details, validity_details, minutes, minutes_type, data_allowance, ''
     @ ''data_allowance_details, data_type, minutes_details, coverage_types)'')"

definition default_bio_columns :: pystr where
  "default_bio_columns =
     u ''(internal_id, id, Biography, brand_name, processed_at, run_id, segment, url)''"

text \<open>\<^verbatim>\<open>", ".join(columns)\<close>.\<close>

fun join_comma :: "pystr list \<Rightarrow> pystr" where
  "join_comma [] = []"
| "join_comma [w] = w"
| "join_comma (w # v # ws) = w @ u '', '' @ join_comma (v # ws)"

definition column_list_of :: "pystr \<Rightarrow> pystr list \<Rightarrow> pystr" where
  "column_list_of detected_table columns =
     (if columns \<noteq> [] then u ''('' @ join_comma columns @ u '')''
      else if sublist (u ''Addons'') detected_table then default_addons_columns
      else if sublist (u ''Bio'') detected_table then default_bio_columns
      else [])"

text \<open>
  The lines of the f-string \<^verbatim>\<open>sql_server_content\<close>; the string is these lines, each followed
  by a line feed.
\<close>

definition script_lines :: "pystr \<Rightarrow> pystr \<Rightarrow> pystr \<Rightarrow> pystr list" where
  "script_lines detected_table column_list cleaned_content =
   [u ''-- SQL Server INSERT Script for '' @ detected_table,
    u ''-- Generated by Python cleaning script'',
    u ''-- Original MySQL data cleaned for SQL Server compatibility'',
    [],
    u ''-- Enable IDENTITY_INSERT'',
    u ''SET IDENTITY_INSERT '' @ detected_table @ u '' ON;'',
    u ''SET NOCOUNT ON;'',
    [],
    u ''-- Begin Transaction for safety'',
    u ''BEGIN TRANSACTION;'',
    [],
    u ''TRY'',
    u ''    -- Insert statements'',
    u ''    INSERT INTO '' @ detected_table @ u '' '' @ column_list @ u '' VALUES'',
    u ''    '' @ rstrip_char 44 cleaned_content @ u '';'',
    u ''    '',
    u ''    -- Commit if successful'',
    u ''    COMMIT TRANSACTION;'',
    u ''    PRINT '' @ [SQ] @ u ''SUCCESS: Data inserted successfully into '' @ detected_table
      @ [SQ] @ u '';'',
    u ''    '',
    u ''END TRY'',
    u ''BEGIN CATCH'',
    u ''    -- Rollback on error'',
    u ''    ROLLBACK TRANSACTION;'',
    u ''    PRINT '' @ [SQ] @ u ''ERROR: '' @ [SQ] @ u '' + ERROR_MESSAGE();'',
    u ''    PRINT '' @ [SQ] @ u ''Error occurred during insert into '' @ detected_table
      @ [SQ] @ u '';'',
    u ''END CATCH'',
    [],
    u ''-- Disable IDENTITY_INSERT'',
    u ''SET IDENTITY_INSERT '' @ detected_table @ u '' OFF;'',
    u ''SET NOCOUNT OFF;'',
    [],
    u ''-- Verify insertion'',
    u ''SELECT COUNT(*) as '' @ [SQ] @ u ''Total Records in '' @ detected_table @ [SQ]
      @ u '' FROM '' @ detected_table @ u '';'',
    u ''SELECT TOP 5 * FROM '' @ detected_table @ u '' ORDER BY internal_id DESC;'']"

definition sql_server_content :: "pystr \<Rightarrow> pystr \<Rightarrow> pystr \<Rightarrow> pystr" where
  "sql_server_content detected_table column_list cleaned_content =
     concat (map (\<lambda>l. l @ [LF]) (script_lines detected_table column_list cleaned_content))"

subsection \<open>Console reports\<close>

text \<open>\<^verbatim>\<open>str(n)\<close> of a count, as an f-string formats it.\<close>

function str_nat :: "nat \<Rightarrow> pystr" where
  "str_nat n = (if n < 10 then [48 + n] else str_nat (n div 10) @ [48 + n mod 10])"
  by pat_completeness auto
termination
  by (relation "measure id") auto

text \<open>
  One attempt of \<^verbatim>\<open>\s*\(\d+,\<close> at the head of the text (the part of the record pattern
  after \<^verbatim>\<open>^\<close>): the text after the match.
\<close>

definition match_record :: "unicode_db \<Rightarrow> pystr \<Rightarrow> pystr option" where
  "match_record U s =
     (case dropWhile is_space s of
        [] \<Rightarrow> None
      | c # s' \<Rightarrow>
          if c = 40 \<and> takeWhile (is_digit U) s' \<noteq> [] then
            (case dropWhile (is_digit U) s' of
               [] \<Rightarrow> None
             | d # rest \<Rightarrow> if d = 44 then Some rest else None)
          else None)"

text \<open>
  \<^verbatim>\<open>len(re.findall(r'^\s*\(\d+,', cleaned_content, re.MULTILINE))\<close>. \<open>bol\<close> tells whether
  the scan stands at the beginning of a line, where \<^verbatim>\<open>^\<close> matches.
\<close>

function count_records :: "unicode_db \<Rightarrow> bool \<Rightarrow> pystr \<Rightarrow> nat" where
  "count_records U bol [] = 0"
| "count_records U bol (c # s) =
     (if bol then
        (case match_record U (c # s) of
           Some rest \<Rightarrow> Suc (count_records U False rest)
         | None \<Rightarrow> count_records U (c = LF) s)
      else count_records U (c = LF) s)"
  by pat_completeness auto
termination
proof (relation "measure (\<lambda>(U, bol, s). length s)"; clarsimp)
  fix U and c :: nat and s rest :: pystr
  assume "match_record U (c # s) = Some rest"
  then obtain s' where a: "dropWhile is_space (c # s) = 40 # s'"
    and b: "dropWhile (is_digit U) s' = 44 # rest"
    by (auto simp: match_record_def split: list.splits if_splits)
  have "length (40 # s') \<le> length (c # s)"
    using a by (metis length_dropWhile_le)
  moreover have "length (44 # rest) \<le> length s'"
    using b by (metis length_dropWhile_le)
  ultimately show "length rest < Suc (length s)"
    by simp
qed

subsection \<open>\<^verbatim>\<open>clean_sql_data\<close>\<close>

text \<open>
  The exceptions that reading and writing a file can raise, as far as the handlers of
  \<^verbatim>\<open>clean_sql_data\<close> tell them apart: \<^verbatim>\<open>FileNotFoundError\<close>; any other exception derived
  from \<^verbatim>\<open>Exception\<close> (the other \<^verbatim>\<open>OSError\<close>s of an I/O failure, a decoding error);
  and an exception that derives from \<^verbatim>\<open>BaseException\<close> only, which \<^verbatim>\<open>except Exception\<close>
  does not catch. Each carries the text of \<^verbatim>\<open>str(e)\<close>.
\<close>

datatype py_exception =
  FileNotFoundError pystr
| OtherException pystr
| BaseExceptionOnly pystr

fun exception_text :: "py_exception \<Rightarrow> pystr" where
  "exception_text (FileNotFoundError m) = m"
| "exception_text (OtherException m) = m"
| "exception_text (BaseExceptionOnly m) = m"

text \<open>
  The file system as the operation meets it: what opening and reading the file of a path
  gives, and whether opening a path for writing and writing a text raises.
\<close>

record file_system =
  read_file :: "pystr \<Rightarrow> py_exception + pystr"
  write_file :: "pystr \<Rightarrow> pystr \<Rightarrow> py_exception option"

text \<open>
  What a call leaves behind: the value returned (\<open>Inr\<close>) or the exception that leaves the
  function (\<open>Inl\<close>), the lines printed, and the file written when the write succeeded.
  \<^verbatim>\<open>print\<close> itself is taken not to fail.
\<close>

record outcome =
  returned :: "py_exception + bool"
  console :: "pystr list"
  written :: "(pystr \<times> pystr) option"

definition check_mark :: pystr where
  "check_mark = [8218, 250, 214]"

definition clean_sql_data ::
    "unicode_db \<Rightarrow> file_system \<Rightarrow> pystr \<Rightarrow> pystr \<Rightarrow> pystr \<Rightarrow> outcome" where
  "clean_sql_data U fs input_file output_file table_name =
     (let out0 = [u ''Reading data from: '' @ input_file] in
      case read_file fs input_file of
        Inl (FileNotFoundError m) \<Rightarrow>
          \<lparr>returned = Inr False,
           console = out0 @ [u ''Error: File '' @ [SQ] @ input_file @ [SQ] @ u '' not found!''],
           written = None\<rparr>
      | Inl (OtherException m) \<Rightarrow>
          \<lparr>returned = Inr False,
           console = out0 @ [u ''Error reading file: '' @ m],
           written = None\<rparr>
      | Inl (BaseExceptionOnly m) \<Rightarrow>
          \<lparr>returned = Inl (BaseExceptionOnly m), console = out0, written = None\<rparr>
      | Inr content \<Rightarrow>
          (let out1 = out0 @ [u ''Cleaning data...''];
               (detected_table, columns) = detect_table_and_columns U table_name content;
               out2 = out1 @
                 [u ''Detected table: '' @ detected_table,
                  u ''Detected columns: '' @ str_nat (length columns) @ u '' columns''];
               values_content = extract_and_clean_values content;
               cleaned_content = clean_values U values_content;
               column_list = column_list_of detected_table columns;
               script = sql_server_content detected_table column_list cleaned_content
           in case write_file fs output_file script of
                None \<Rightarrow>
                  \<lparr>returned = Inr True,
                   console = out2 @
                     [check_mark @ u '' Cleaned data saved to: '' @ output_file,
                      check_mark @ u '' Total size: '' @ str_nat (length script) @ u '' characters'',
                      check_mark @ u '' Total records: ''
                        @ str_nat (count_records U True cleaned_content)],
                   written = Some (output_file, script)\<rparr>
              | Some (BaseExceptionOnly m) \<Rightarrow>
                  \<lparr>returned = Inl (BaseExceptionOnly m), console = out2, written = None\<rparr>
              | Some e \<Rightarrow>
                  \<lparr>returned = Inr False,
                   console = out2 @ [u ''Error writing file: '' @ exception_text e],
                   written = None\<rparr>))"

section \<open>Reference notions used in the statements\<close>

text \<open>
  A database with nothing outside ASCII: no further digit, no further alphanumeric code
  point, \<^verbatim>\<open>capitalize\<close> the identity there. It instantiates the parameter where a
  statement is evaluated on ASCII text.
\<close>

definition ascii_only :: unicode_db where
  "ascii_only = \<lparr>ud_digit = (\<lambda>c. False), ud_alnum = (\<lambda>c. False), ud_capitalize = (\<lambda>w. w)\<rparr>"

text \<open>
  The escaping convention of SQL Server that section 4.6 of the specification names: a
  literal opens at a single quote and closes at the next quote that is not doubled; two
  consecutive quotes inside a literal stand for one quote of its value.
  \<open>sql_outside text\<close> reads \<open>text\<close> under that convention and returns the values of its
  literals, or \<open>None\<close> when a literal is left open.
\<close>

fun sql_outside :: "pystr \<Rightarrow> pystr list option"
  and sql_inside :: "pystr \<Rightarrow> pystr \<Rightarrow> pystr list option" where
  "sql_outside [] = Some []"
| "sql_outside (c # s) = (if c = SQ then sql_inside [] s else sql_outside s)"
| "sql_inside acc [] = None"
| "sql_inside acc (c # s) =
     (if c \<noteq> SQ then sql_inside (acc @ [c]) s
      else case s of
             [] \<Rightarrow> Some [acc]
           | d # s' \<Rightarrow>
               if d = SQ then sql_inside (acc @ [SQ]) s'
               else map_option (\<lambda>ls. acc # ls) (sql_outside s'))"

text \<open>
  The bodies that the pattern of \<open>fix_quotes_and_special_chars\<close> reads up to a closing
  quote: every code point is either no quote and no backslash, or it is a backslash
  followed by one code point other than a line feed. A quote occurs in such a body only
  behind a backslash.
\<close>

fun escaped_body :: "pystr \<Rightarrow> bool" where
  "escaped_body [] = True"
| "escaped_body [c] = (c \<noteq> SQ \<and> c \<noteq> BSL)"
| "escaped_body (c # d # s) =
     (if c = SQ then False
      else if c = BSL then d \<noteq> LF \<and> escaped_body s
      else escaped_body (d # s))"

text \<open>Whether \<^verbatim>\<open>except Exception\<close> catches the exception.\<close>

fun derives_from_Exception :: "py_exception \<Rightarrow> bool" where
  "derives_from_Exception (FileNotFoundError m) = True"
| "derives_from_Exception (OtherException m) = True"
| "derives_from_Exception (BaseExceptionOnly m) = False"



text \<open>The literal part \<open>ps\<close> of a pattern occurs in the text, in any letter case.\<close>

fun ci_occurs :: "pystr \<Rightarrow> pystr \<Rightarrow> bool" where
  "ci_occurs ps [] = (ci_literal ps [] \<noteq> None)"
| "ci_occurs ps (c # s) = (ci_literal ps (c # s) \<noteq> None \<or> ci_occurs ps s)"

text \<open>
  The words \<^verbatim>\<open>INSERT INTO\<close> stand somewhere in a line, in any letter case. A line of a
  script in which an \<^verbatim>\<open>INSERT INTO\<close> statement starts is such a line, wherever in the line
  the statement starts and however it is capitalised.
\<close>

definition holds_insert_into :: "pystr \<Rightarrow> bool" where
  "holds_insert_into line = ci_occurs (u ''INSERT INTO'') line"

text \<open>
  A non-empty end of the pattern \<open>ps\<close> is matched at the head of \<open>rest\<close>: an occurrence of
  the pattern that starts before \<open>rest\<close> could end in it.
\<close>

fun ends_in :: "pystr \<Rightarrow> pystr \<Rightarrow> bool" where
  "ends_in [] rest = False"
| "ends_in (p # ps) rest = (ci_literal (p # ps) rest \<noteq> None \<or> ends_in ps rest)"

text \<open>
  A listed contraction \<open>original\<close> occurs in a text with its quote between \<open>before\<close> and
  \<open>after\<close>: the letters it has before its quote end \<open>before\<close>, the letters it has behind
  its quote begin \<open>after\<close>.
\<close>

definition occurs_around :: "pystr \<Rightarrow> pystr \<Rightarrow> pystr \<Rightarrow> bool" where
  "occurs_around original before after \<longleftrightarrow>
     suffix (takeWhile (\<lambda>c. c \<noteq> SQ) original) before \<and>
     prefix (tl (dropWhile (\<lambda>c. c \<noteq> SQ) original)) after"

text \<open>
  What claim C6 asks of the apostrophe fixer, read position by position: a single quote is
  written twice when it is the quote of an occurrence, in the input, of a contraction
  listed in \<open>fs\<close>; every other code point is copied. \<open>before\<close> is the input up to the
  position read.
\<close>

fun double_listed :: "(pystr \<times> pystr) list \<Rightarrow> pystr \<Rightarrow> pystr \<Rightarrow> pystr" where
  "double_listed fs before [] = []"
| "double_listed fs before (c # s) =
     (if c = SQ \<and> list_ex (\<lambda>(original, replacement). occurs_around original before s) fs
      then [SQ, SQ] else [c]) @ double_listed fs (before @ [c]) s"

text \<open>
  The same reading of a part of the input that is followed by \<open>after\<close>: what
  \<open>double_listed\<close> writes for the part when the input goes on with \<open>after\<close>.
\<close>

fun double_upto :: "(pystr \<times> pystr) list \<Rightarrow> pystr \<Rightarrow> pystr \<Rightarrow> pystr \<Rightarrow> pystr" where
  "double_upto fs before [] after = []"
| "double_upto fs before (c # s) after =
     (if c = SQ \<and>
         list_ex (\<lambda>(original, replacement). occurs_around original before (s @ after)) fs
      then [SQ, SQ] else [c]) @ double_upto fs (before @ [c]) s after"

text \<open>
  The shape of an entry that the proofs rely on: \<open>k\<close> is \<open>a\<close>, a quote, \<open>b\<close>, with \<open>a\<close> and
  \<open>b\<close> non-empty and free of quotes, and the first code point of \<open>a\<close> absent from \<open>b\<close> (so
  no occurrence of \<open>k\<close> starts inside another); \<open>well_formed_fix\<close> says so of an entry
  of the dictionary and that its replacement is \<open>a\<close>, two quotes, \<open>b\<close>.
\<close>

definition quote_split :: "pystr \<Rightarrow> pystr \<Rightarrow> pystr \<Rightarrow> bool" where
  "quote_split a b k \<longleftrightarrow>
     a \<noteq> [] \<and> b \<noteq> [] \<and> SQ \<notin> set a \<and> SQ \<notin> set b \<and> hd a \<notin> set b \<and> k = a @ SQ # b"

definition well_formed_fix :: "pystr \<times> pystr \<Rightarrow> bool" where
  "well_formed_fix f \<longleftrightarrow>
     (let a = takeWhile (\<lambda>c. c \<noteq> SQ) (fst f); b = tl (dropWhile (\<lambda>c. c \<noteq> SQ) (fst f))
      in quote_split a b (fst f) \<and> snd f = a @ SQ # SQ # b)"

text \<open>
  The text that \<^verbatim>\<open>clean_sql_data\<close> hands to \<^verbatim>\<open>file.write\<close> for an input that was read:
  the script of the detected table, its column list and the cleaned values block.
\<close>

definition generated_script :: "unicode_db \<Rightarrow> pystr \<Rightarrow> pystr \<Rightarrow> pystr" where
  "generated_script U table_name content =
     (let (detected_table, columns) = detect_table_and_columns U table_name content;
          cleaned_content = clean_values U (extract_and_clean_values content)
      in sql_server_content detected_table (column_list_of detected_table columns)
           cleaned_content)"


section \<open>Properties\<close>

subsection \<open>\<^verbatim>\<open>str.replace\<close>\<close>

lemma replace_Cons [simp]: "replace (o1 # old) new s = replace_ne (o1 # old) new s"
  by (simp add: replace_def)

lemma replace_absent: "\<not> sublist old s \<Longrightarrow> replace old new s = s"
proof (induction s)
  case Nil
  then show ?case by (cases old) (simp_all add: replace_def)
next
  case (Cons c s)
  then have "old \<noteq> []" "\<not> prefix old (c # s)" "\<not> sublist old s"
    by (auto simp: sublist_Cons_right)
  with Cons.IH show ?case by (simp add: replace_def)
qed

subsection \<open>The generic quote fixer\<close>

lemma scan_literal_split:
  "scan_literal s = Some (b, r) \<Longrightarrow> s = b @ SQ # r"
  by (induction s arbitrary: b r rule: scan_literal.induct)
     (simp, simp split: if_splits list.splits option.splits, fastforce+)

lemma scan_literal_no_quote:
  "scan_literal s = Some (b, r) \<Longrightarrow> \<not> sublist [BSL, SQ] s \<Longrightarrow> SQ \<notin> set b"
proof (induction s arbitrary: b r rule: scan_literal.induct)
  case 1
  then show ?case by simp
next
  case (2 c s)
  show ?case
  proof (cases "c = SQ")
    case True
    with 2 show ?thesis by simp
  next
    case notq: False
    show ?thesis
    proof (cases "c = BSL")
      case True
      with notq 2(3) obtain d s' b' where s: "s = d # s'" and d: "d \<noteq> LF"
        and sc: "scan_literal s' = Some (b', r)" and b: "b = c # d # b'"
        by (auto split: list.splits if_splits option.splits)
      from 2(4) s True have dq: "d \<noteq> SQ" and ns: "\<not> sublist [BSL, SQ] s'"
        by (auto simp: sublist_Cons_right)
      from 2(1) [OF notq True s d sc ns] have "SQ \<notin> set b'" .
      with b dq True show ?thesis by simp
    next
      case False
      with notq 2(3) obtain b' where sc: "scan_literal s = Some (b', r)" and b: "b = c # b'"
        by (auto split: option.splits)
      from 2(4) have "\<not> sublist [BSL, SQ] s"
        by (auto simp: sublist_Cons_right)
      from 2(2) [OF notq False sc this] b notq show ?thesis by simp
    qed
  qed
qed

lemma no_quote_replace: "SQ \<notin> set b \<Longrightarrow> replace [SQ] [SQ, SQ] b = b"
  by (rule replace_absent) (auto dest: set_mono_sublist)
lemma scan_literal_escaped_body:
  "escaped_body content \<Longrightarrow> scan_literal (content @ SQ # rest) = Some (content, rest)"
  by (induction content rule: escaped_body.induct) auto

text \<open>
  What the fixer does to a literal it recognises: when the body is made of plain code
  points and backslash escapes, whatever text follows, it doubles every quote of the body
  (each stands behind a backslash), keeps the two delimiters single and goes on with the
  text after the literal.
\<close>

lemma fix_quotes_doubles_escaped:
  "escaped_body content \<Longrightarrow>
   fix_quotes_and_special_chars ([SQ] @ content @ [SQ] @ rest) =
     [SQ] @ replace [SQ] [SQ, SQ] content @ [SQ] @ fix_quotes_and_special_chars rest"
  by (simp add: scan_literal_escaped_body replace_quotes_in_string_def)

lemma fix_quotes_doubles_escaped_example:
  "escaped_body (u ''kids'' @ [BSL, SQ] @ u '' club'') \<and>
   fix_quotes_and_special_chars ([SQ] @ (u ''kids'' @ [BSL, SQ] @ u '' club'') @ [SQ] @ u '', 5)'') =
     [SQ] @ (u ''kids'' @ [BSL, SQ, SQ] @ u '' club'') @ [SQ] @ u '', 5)''"
proof -
  have h: "escaped_body (u ''kids'' @ [BSL, SQ] @ u '' club'')"
    by simp
  show ?thesis
    using h fix_quotes_doubles_escaped [OF h, of "u '', 5)''"] by simp
qed

text \<open>
  Claim C1, where the code departs from it. The claim reads: after the fixer, applied to
  text that has passed the normalizer, the apostrophe fixer and the business-term fixer,
  every single quote inside a string literal is two consecutive quotes, the delimiters
  staying single. The comments of \<^verbatim>\<open>fix_quotes_and_special_chars\<close> say the same (replace
  single quotes within string literals, by doubling them; the pattern handles nested
  quotes). Yet the pattern closes a literal at the first quote that no backslash precedes:
  the values text \<^verbatim>\<open>(1, 'Bob's car')\<close> passes the three earlier steps unchanged, the fixer
  returns it unchanged too, and the result leaves a literal open under the doubled-quote
  convention, where the claim asks for \<^verbatim>\<open>(1, 'Bob''s car')\<close>, the single literal of value
  \<^verbatim>\<open>Bob's car\<close>.
\<close>

theorem fix_quotes_leaves_internal_quote:
  "fix_business_terms ascii_only (fix_apostrophes (fix_newlines_and_formatting
      (u ''(1, 'Bob's car')''))) = u ''(1, 'Bob's car')'' \<and>
   fix_quotes_and_special_chars (u ''(1, 'Bob's car')'') = u ''(1, 'Bob's car')'' \<and>
   sql_outside (fix_quotes_and_special_chars (u ''(1, 'Bob's car')'')) = None \<and>
   sql_outside (u ''(1, 'Bob'' @ [SQ, SQ] @ u ''s car')'') = Some [u ''Bob's car'']"
  by (simp add: fix_business_terms_def fix_apostrophes_def apostrophe_fixes_def fix_of_def
      fix_newlines_and_formatting_def is_space_def match_tcode_def replace_quotes_in_string_def)

text \<open>
  Claim C2, as the code has it. The claim reads: on text whose internal quotes are already
  doubled the fixer changes nothing. The pattern reads a backslash as an escape of the
  code point after it, so a doubled quote that follows a backslash is taken apart. What
  holds: the fixer returns every text unchanged in which no backslash stands immediately
  before a single quote; in particular
  no doubled quote of such a text becomes four quotes and no quote is added.
\<close>

theorem fix_quotes_unchanged:
  "\<not> sublist [BSL, SQ] text0 \<Longrightarrow> fix_quotes_and_special_chars text0 = text0"
proof (induction text0 rule: fix_quotes_and_special_chars.induct)
  case 1
  then show ?case by simp
next
  case (2 c s)
  from 2(4) have ns: "\<not> sublist [BSL, SQ] s"
    by (auto simp: sublist_Cons_right)
  show ?case
  proof (cases "c = SQ")
    case False
    with 2(3) ns show ?thesis by simp
  next
    case True
    show ?thesis
    proof (cases "scan_literal s")
      case None
      from 2(1) [OF True None ns] True None show ?thesis by simp
    next
      case (Some p)
      obtain b r where p: "p = (b, r)" by (cases p)
      from Some p have sc: "scan_literal s = Some (b, r)" by simp
      then have s: "s = b @ SQ # r" by (rule scan_literal_split)
      from sc ns have "SQ \<notin> set b" by (rule scan_literal_no_quote)
      then have rb: "replace [SQ] [SQ, SQ] b = b" by (rule no_quote_replace)
      from ns s have "\<not> sublist [BSL, SQ] r"
        by (auto simp: sublist_append sublist_Cons_right)
      from 2(2) [OF True Some p [symmetric] this] have "fix_quotes_and_special_chars r = r" .
      with True sc rb s show ?thesis
        by (simp add: replace_quotes_in_string_def)
    qed
  qed
qed

theorem fix_quotes_unchanged_witness:
  "\<not> sublist [BSL, SQ] (u ''(1, 'it'' @ [SQ, SQ] @ u ''s', 'a'' @ [SQ] @ u '')'') \<and>
   fix_quotes_and_special_chars (u ''(1, 'it'' @ [SQ, SQ] @ u ''s', 'a'' @ [SQ] @ u '')'') =
     u ''(1, 'it'' @ [SQ, SQ] @ u ''s', 'a'' @ [SQ] @ u '')''"
proof -
  have h: "\<not> sublist [BSL, SQ] (u ''(1, 'it'' @ [SQ, SQ] @ u ''s', 'a'' @ [SQ] @ u '')'')"
    by (simp add: sublist_code)
  show ?thesis
    using h fix_quotes_unchanged [OF h] by simp
qed

text \<open>
  The text \<^verbatim>\<open>'a\''b'\<close> is one correctly escaped literal of value \<^verbatim>\<open>a\'b\<close> under the
  doubled-quote convention; the fixer turns it into \<^verbatim>\<open>'a\'''b'\<close>, with one quote more.
\<close>

theorem fix_quotes_backslash_counterexample:
  "sql_outside ([SQ] @ u ''a'' @ [BSL, SQ, SQ] @ u ''b'' @ [SQ]) = Some [u ''a'' @ [BSL, SQ] @ u ''b''] \<and>
   fix_quotes_and_special_chars ([SQ] @ u ''a'' @ [BSL, SQ, SQ] @ u ''b'' @ [SQ]) =
     [SQ] @ u ''a'' @ [BSL, SQ, SQ, SQ] @ u ''b'' @ [SQ]"
  by (simp add: replace_quotes_in_string_def)

subsection \<open>The apostrophe fixer\<close>

lemma apply_fixes_absent:
  "list_all (\<lambda>(k, r). \<not> sublist k text0) fs \<Longrightarrow> apply_fixes fs text0 = text0"
  by (induction fs) (auto simp: replace_absent)

subsection \<open>The chain on the scenario of the specification\<close>

text \<open>
  Claim C3, as the code has it. The claim reads: the chain maps
  \<^verbatim>\<open>(1, 'it''s T100 test\n line2')\<close> to a flattened literal in which \<^verbatim>\<open>'T100'\<close> has become
  \<^verbatim>\<open>''T100''\<close>. In that input \<^verbatim>\<open>T100\<close> stands between spaces, not between quotes, and the
  pattern \<^verbatim>\<open>'T(\d+)'\<close> of the business-term fixer asks for the quotes. What holds: the backslash-n and the space after it
  become one space, \<^verbatim>\<open>T100\<close> is left as it is, and the result
  \<^verbatim>\<open>(1, 'it''s T100 test line2')\<close> is a single literal of value
  \<^verbatim>\<open>it's T100 test line2\<close> under the doubled-quote convention; when the input has
  \<^verbatim>\<open>'T100'\<close> between quotes, that code becomes \<^verbatim>\<open>''T100''\<close> and the result is again a
  single literal, of value \<^verbatim>\<open>it's 'T100' test line2\<close>.
\<close>

theorem scenario_chain:
  "clean_values U (u ''(1, 'it'' @ [SQ, SQ] @ u ''s T100 test'' @ [BSL, 110] @ u '' line2')'') =
     u ''(1, 'it'' @ [SQ, SQ] @ u ''s T100 test line2')'' \<and>
   sql_outside (u ''(1, 'it'' @ [SQ, SQ] @ u ''s T100 test line2')'') =
     Some [u ''it's T100 test line2''] \<and>
   clean_values U (u ''(1, 'it'' @ [SQ, SQ] @ u ''s 'T100' test'' @ [BSL, 110] @ u '' line2')'') =
     u ''(1, 'it'' @ [SQ, SQ] @ u ''s '' @ [SQ, SQ] @ u ''T100'' @ [SQ, SQ] @ u '' test line2')'' \<and>
   sql_outside (u ''(1, 'it'' @ [SQ, SQ] @ u ''s '' @ [SQ, SQ] @ u ''T100'' @ [SQ, SQ] @ u '' test line2')'') =
     Some [u ''it's 'T100' test line2'']"
  by (simp add: clean_values_def fix_newlines_and_formatting_def is_space_def fix_apostrophes_def
      apostrophe_fixes_def fix_of_def fix_business_terms_def match_tcode_def is_digit_def
      replace_quotes_in_string_def)

text \<open>The output of the chain on the scenario's input holds no \<^verbatim>\<open>''T100''\<close>.\<close>

theorem scenario_chain_counterexample:
  "\<not> sublist ([SQ, SQ] @ u ''T100'' @ [SQ, SQ])
     (clean_values ascii_only
        (u ''(1, 'it'' @ [SQ, SQ] @ u ''s T100 test'' @ [BSL, 110] @ u '' line2')''))"
  by (simp add: clean_values_def fix_newlines_and_formatting_def is_space_def fix_apostrophes_def
      apostrophe_fixes_def fix_of_def fix_business_terms_def match_tcode_def is_digit_def
      replace_quotes_in_string_def sublist_code)


subsection \<open>The assembled script\<close>

lemma split_on_line:
  "sep \<notin> set l \<Longrightarrow> split_on sep (l @ sep # rest) = l # split_on sep rest"
  by (induction l) auto

lemma split_on_lines:
  "\<forall>l \<in> set ls. sep \<notin> set l \<Longrightarrow>
   split_on sep (concat (map (\<lambda>l. l @ [sep]) ls)) = ls @ [[]]"
  by (induction ls) (auto simp: split_on_line)

lemma set_rstrip_char: "set (rstrip_char c s) \<subseteq> set s"
  unfolding rstrip_char_def using set_dropWhileD by fastforce

lemma script_lines_split:
  assumes "LF \<notin> set detected_table" "LF \<notin> set column_list" "LF \<notin> set cleaned_content"
  shows "split_on LF (sql_server_content detected_table column_list cleaned_content) =
           script_lines detected_table column_list cleaned_content @ [[]]"
proof -
  have "LF \<notin> set (rstrip_char 44 cleaned_content)"
    using assms(3) set_rstrip_char by blast
  with assms(1,2)
  have "\<forall>l \<in> set (script_lines detected_table column_list cleaned_content). LF \<notin> set l"
    by (simp add: script_lines_def)
  then show ?thesis
    unfolding sql_server_content_def by (rule split_on_lines)
qed

text \<open>
  Where the words \<^verbatim>\<open>INSERT INTO\<close> stand in a text that is put together from parts: an
  occurrence lies in one part when no occurrence can start in a part and end in the next.
\<close>

lemma ci_literal_tail:
  "w \<noteq> [] \<Longrightarrow> \<not> ends_in ps rest \<Longrightarrow>
   (ci_literal (p # ps) (w @ rest) = None) = (ci_literal (p # ps) w = None)"
proof (induction ps arbitrary: p w)
  case Nil
  then show ?case by (cases w) auto
next
  case (Cons q qs)
  from Cons.prems(1) obtain c w' where w: "w = c # w'" by (cases w) auto
  from Cons.prems(2) have r: "ci_literal (q # qs) rest = None" and e: "\<not> ends_in qs rest"
    by simp_all
  show ?case
  proof (cases "w' = []")
    case True
    with w r show ?thesis by simp
  next
    case False
    from Cons.IH [OF False e, of q] w show ?thesis by simp
  qed
qed

lemma ci_literal_tail0:
  "ci_literal (p # ps) rest = None \<Longrightarrow> \<not> ends_in ps rest \<Longrightarrow>
   (ci_literal (p # ps) (w @ rest) = None) = (ci_literal (p # ps) w = None)"
  by (cases "w = []") (simp_all add: ci_literal_tail)

lemma ci_occurs_append:
  "\<not> ends_in ps rest \<Longrightarrow>
   ci_occurs (p # ps) (x @ rest) = (ci_occurs (p # ps) x \<or> ci_occurs (p # ps) rest)"
proof (induction x)
  case Nil
  show ?case by simp
next
  case (Cons c x)
  have "(ci_literal (p # ps) ((c # x) @ rest) = None) = (ci_literal (p # ps) (c # x) = None)"
    using Cons.prems by (intro ci_literal_tail) simp_all
  with Cons show ?case by auto
qed

lemma holds_append:
  "\<not> ends_in (u ''NSERT INTO'') rest \<Longrightarrow>
   holds_insert_into (x @ rest) = (holds_insert_into x \<or> holds_insert_into rest)"
  unfolding holds_insert_into_def
  using ci_occurs_append [of "u ''NSERT INTO''" rest 73 x] by simp

text \<open>
  The lines of the template that hold the table name, the column list or the values block.
\<close>

lemma holds_line0:
  "\<not> holds_insert_into t \<Longrightarrow>
   \<not> holds_insert_into (u ''-- SQL Server INSERT Script for '' @ t)"
  by (simp add: holds_insert_into_def ci_eq_def)

lemma holds_set_identity:
  "holds_insert_into (u ''SET IDENTITY_INSERT '' @ y) =
     (ci_literal (u ''INTO'') y \<noteq> None \<or> holds_insert_into y)"
  by (simp add: holds_insert_into_def ci_eq_def)

lemma holds_line13:
  "holds_insert_into (u ''    INSERT INTO '' @ t @ u '' '' @ c @ u '' VALUES'')"
  by (simp add: holds_insert_into_def ci_eq_def)

lemma holds_line25:
  "holds_insert_into (u ''    PRINT '' @ [SQ] @ u ''Error occurred during insert into '' @ t @
     [SQ] @ u '';'')"
  by (simp add: holds_insert_into_def ci_eq_def)

lemma holds_line5:
  assumes "\<not> holds_insert_into t"
  shows "holds_insert_into (u ''SET IDENTITY_INSERT '' @ t @ u '' ON;'') =
     (ci_literal (u ''INTO'') t \<noteq> None)"
proof -
  have "holds_insert_into (t @ u '' ON;'') = (holds_insert_into t \<or> holds_insert_into (u '' ON;''))"
    by (rule holds_append) (simp add: ci_eq_def)
  then have a: "\<not> holds_insert_into (t @ u '' ON;'')"
    using assms by (simp add: holds_insert_into_def ci_eq_def)
  have "(ci_literal (u ''INTO'') (t @ u '' ON;'') = None) = (ci_literal (u ''INTO'') t = None)"
    using ci_literal_tail0 [of 73 "u ''NTO''" "u '' ON;''" t] by (simp add: ci_eq_def)
  with a show ?thesis
    unfolding holds_set_identity by simp
qed

lemma holds_line29:
  assumes "\<not> holds_insert_into t"
  shows "holds_insert_into (u ''SET IDENTITY_INSERT '' @ t @ u '' OFF;'') =
     (ci_literal (u ''INTO'') t \<noteq> None)"
proof -
  have "holds_insert_into (t @ u '' OFF;'') = (holds_insert_into t \<or> holds_insert_into (u '' OFF;''))"
    by (rule holds_append) (simp add: ci_eq_def)
  then have a: "\<not> holds_insert_into (t @ u '' OFF;'')"
    using assms by (simp add: holds_insert_into_def ci_eq_def)
  have "(ci_literal (u ''INTO'') (t @ u '' OFF;'') = None) = (ci_literal (u ''INTO'') t = None)"
    using ci_literal_tail0 [of 73 "u ''NTO''" "u '' OFF;''" t] by (simp add: ci_eq_def)
  with a show ?thesis
    unfolding holds_set_identity by simp
qed

lemma holds_statement_rest:
  assumes "\<not> holds_insert_into t" "\<not> holds_insert_into c" "c = [] \<or> hd c = 40"
  shows "\<not> holds_insert_into (t @ u '' '' @ c @ u '' VALUES'')"
proof -
  have "holds_insert_into (c @ u '' VALUES'') =
      (holds_insert_into c \<or> holds_insert_into (u '' VALUES''))"
    by (rule holds_append) (simp add: ci_eq_def)
  then have "\<not> holds_insert_into (c @ u '' VALUES'')"
    using assms(2) by (simp add: holds_insert_into_def ci_eq_def)
  then have b: "\<not> holds_insert_into (u '' '' @ c @ u '' VALUES'')"
    by (simp add: holds_insert_into_def ci_eq_def)
  have e: "\<not> ends_in (u ''NSERT INTO'') (u '' '' @ c @ u '' VALUES'')"
    using assms(3) by (cases c) (auto simp: ci_eq_def)
  show ?thesis
    using holds_append [OF e, of t] assms(1) b by simp
qed

lemma holds_line18:
  assumes "\<not> holds_insert_into t"
  shows "\<not> holds_insert_into (u ''    PRINT '' @ [SQ] @
     u ''SUCCESS: Data inserted successfully into '' @ t @ [SQ] @ u '';'')"
proof -
  have "holds_insert_into (t @ [SQ] @ u '';'') =
      (holds_insert_into t \<or> holds_insert_into ([SQ] @ u '';''))"
    by (rule holds_append) (simp add: ci_eq_def)
  then have "\<not> holds_insert_into (t @ [SQ] @ u '';'')"
    using assms by (simp add: holds_insert_into_def ci_eq_def)
  then show ?thesis
    by (simp add: holds_insert_into_def ci_eq_def)
qed

lemma holds_line33:
  assumes "\<not> holds_insert_into t"
  shows "\<not> holds_insert_into (u ''SELECT COUNT(*) as '' @ [SQ] @ u ''Total Records in '' @ t @
     [SQ] @ u '' FROM '' @ t @ u '';'')"
proof -
  have "holds_insert_into (t @ u '';'') = (holds_insert_into t \<or> holds_insert_into (u '';''))"
    by (rule holds_append) (simp add: ci_eq_def)
  then have "\<not> holds_insert_into (t @ u '';'')"
    using assms by (simp add: holds_insert_into_def ci_eq_def)
  then have b: "\<not> holds_insert_into ([SQ] @ u '' FROM '' @ t @ u '';'')"
    by (simp add: holds_insert_into_def ci_eq_def)
  have "holds_insert_into (t @ [SQ] @ u '' FROM '' @ t @ u '';'') =
      (holds_insert_into t \<or> holds_insert_into ([SQ] @ u '' FROM '' @ t @ u '';''))"
    by (rule holds_append) (simp add: ci_eq_def)
  then have "\<not> holds_insert_into (t @ [SQ] @ u '' FROM '' @ t @ u '';'')"
    using assms b by simp
  then show ?thesis
    by (simp add: holds_insert_into_def ci_eq_def)
qed

lemma holds_line34:
  assumes "\<not> holds_insert_into t"
  shows "\<not> holds_insert_into (u ''SELECT TOP 5 * FROM '' @ t @
     u '' ORDER BY internal_id DESC;'')"
proof -
  have "holds_insert_into (t @ u '' ORDER BY internal_id DESC;'') =
      (holds_insert_into t \<or> holds_insert_into (u '' ORDER BY internal_id DESC;''))"
    by (rule holds_append) (simp add: ci_eq_def)
  then have "\<not> holds_insert_into (t @ u '' ORDER BY internal_id DESC;'')"
    using assms by (simp add: holds_insert_into_def ci_eq_def)
  then show ?thesis
    by (simp add: holds_insert_into_def ci_eq_def)
qed

lemma rstrip_char_split: "\<exists>t. s = rstrip_char c s @ t \<and> set t \<subseteq> {c}"
proof -
  let ?t = "takeWhile (\<lambda>d. d = c) (rev s)"
  have "rev s = ?t @ dropWhile (\<lambda>d. d = c) (rev s)"
    by simp
  then have "s = rev (dropWhile (\<lambda>d. d = c) (rev s)) @ rev ?t"
    by (metis rev_append rev_rev_ident)
  moreover have "set (rev ?t) \<subseteq> {c}"
    by (auto dest: set_takeWhileD)
  ultimately show ?thesis
    unfolding rstrip_char_def by blast
qed

lemma holds_commas: "set t \<subseteq> {44} \<Longrightarrow> \<not> holds_insert_into t"
  unfolding holds_insert_into_def by (induction t) (auto simp: ci_eq_def)

lemma holds_line14:
  "holds_insert_into (u ''    '' @ rstrip_char 44 v @ u '';'') = holds_insert_into v"
proof -
  obtain t where t: "v = rstrip_char 44 v @ t" "set t \<subseteq> {44}"
    using rstrip_char_split by blast
  have e: "\<not> ends_in (u ''NSERT INTO'') t"
    using t(2) by (cases t) (auto simp: ci_eq_def)
  have "holds_insert_into (rstrip_char 44 v @ t) =
      (holds_insert_into (rstrip_char 44 v) \<or> holds_insert_into t)"
    using e by (rule holds_append)
  with t have a: "holds_insert_into v = holds_insert_into (rstrip_char 44 v)"
    using holds_commas [OF t(2)] by simp
  have "holds_insert_into (rstrip_char 44 v @ u '';'') =
      (holds_insert_into (rstrip_char 44 v) \<or> holds_insert_into (u '';''))"
    by (rule holds_append) (simp add: ci_eq_def)
  then have "holds_insert_into (rstrip_char 44 v @ u '';'') = holds_insert_into (rstrip_char 44 v)"
    by (simp add: holds_insert_into_def ci_eq_def)
  then have "holds_insert_into (u ''    '' @ rstrip_char 44 v @ u '';'') =
      holds_insert_into (rstrip_char 44 v)"
    by (simp add: holds_insert_into_def ci_eq_def)
  with a show ?thesis by simp
qed

text \<open>The lines of the template in which the words stand.\<close>

lemma script_lines_insert_into:
  assumes "\<not> holds_insert_into t"
  shows "filter holds_insert_into (script_lines t c v @ [[]]) =
     (if ci_literal (u ''INTO'') t \<noteq> None then [u ''SET IDENTITY_INSERT '' @ t @ u '' ON;''] else []) @
     [u ''    INSERT INTO '' @ t @ u '' '' @ c @ u '' VALUES''] @
     (if holds_insert_into v then [u ''    '' @ rstrip_char 44 v @ u '';''] else []) @
     [u ''    PRINT '' @ [SQ] @ u ''Error occurred during insert into '' @ t @ [SQ] @ u '';''] @
     (if ci_literal (u ''INTO'') t \<noteq> None then [u ''SET IDENTITY_INSERT '' @ t @ u '' OFF;''] else [])"
proof -
  define a0 where "a0 = u ''-- SQL Server INSERT Script for '' @ t"
  define a5 where "a5 = u ''SET IDENTITY_INSERT '' @ t @ u '' ON;''"
  define a13 where "a13 = u ''    INSERT INTO '' @ t @ u '' '' @ c @ u '' VALUES''"
  define a14 where "a14 = u ''    '' @ rstrip_char 44 v @ u '';''"
  define a18 where "a18 = u ''    PRINT '' @ [SQ] @
     u ''SUCCESS: Data inserted successfully into '' @ t @ [SQ] @ u '';''"
  define a25 where "a25 = u ''    PRINT '' @ [SQ] @ u ''Error occurred during insert into '' @ t @
     [SQ] @ u '';''"
  define a29 where "a29 = u ''SET IDENTITY_INSERT '' @ t @ u '' OFF;''"
  define a33 where "a33 = u ''SELECT COUNT(*) as '' @ [SQ] @ u ''Total Records in '' @ t @
     [SQ] @ u '' FROM '' @ t @ u '';''"
  define a34 where "a34 = u ''SELECT TOP 5 * FROM '' @ t @ u '' ORDER BY internal_id DESC;''"
  note defs = a0_def a5_def a13_def a14_def a18_def a25_def a29_def a33_def a34_def
  have f: "\<not> holds_insert_into a0" "holds_insert_into a5 = (ci_literal (u ''INTO'') t \<noteq> None)"
    "holds_insert_into a13" "holds_insert_into a14 = holds_insert_into v"
    "\<not> holds_insert_into a18" "holds_insert_into a25"
    "holds_insert_into a29 = (ci_literal (u ''INTO'') t \<noteq> None)"
    "\<not> holds_insert_into a33" "\<not> holds_insert_into a34"
    unfolding defs
    by (rule holds_line0 holds_line5 holds_line13 holds_line14 holds_line18 holds_line25
        holds_line29 holds_line33 holds_line34 assms)+
  show ?thesis
    unfolding script_lines_def defs [symmetric]
    using f
    by (cases "ci_literal (u ''INTO'') t = None"; cases "holds_insert_into v")
       (simp_all add: holds_insert_into_def ci_eq_def)
qed

text \<open>
  The values block that leaves the chain holds no whitespace but the space, whatever the
  input: the normalizer turns every run of whitespace into one space and the later steps
  insert quotes, letters and digits only.
\<close>

lemma space_not_printable: "is_space w \<Longrightarrow> w \<noteq> SPC \<Longrightarrow> w < 32 \<or> 126 < w"
  by (auto simp: is_space_def)

lemma set_replace_ne: "set (replace_ne old new s) \<subseteq> set new \<union> set s"
proof (induction old new s rule: replace_ne.induct)
  case (1 old new)
  show ?case by simp
next
  case (2 old new c s)
  have "set (drop (length old) (c # s)) \<subseteq> set (c # s)"
    by (rule set_drop_subset)
  with 2 show ?case
    by (auto split: if_splits)
qed

lemma set_replace: "set (replace old new s) \<subseteq> set new \<union> set s"
  using set_replace_ne [of old new s] by (auto simp: replace_def)

lemma replace_avoids: "w \<notin> set new \<Longrightarrow> w \<notin> set s \<Longrightarrow> w \<notin> set (replace old new s)"
  using set_replace [of old new s] by auto

lemma collapse_ws_avoids: "is_space w \<Longrightarrow> w \<noteq> SPC \<Longrightarrow> w \<notin> set (collapse_ws s)"
proof (induction s rule: collapse_ws.induct)
  case 1
  show ?case by simp
next
  case (2 c s)
  then show ?case
    by (cases "is_space c") auto
qed

lemma apply_fixes_avoids:
  "list_all (\<lambda>(k, r). w \<notin> set r) fs \<Longrightarrow> w \<notin> set s \<Longrightarrow> w \<notin> set (apply_fixes fs s)"
proof (induction fs arbitrary: s)
  case Nil
  then show ?case by simp
next
  case (Cons f fs)
  obtain k r where f: "f = (k, r)" by (cases f)
  with Cons.prems have r: "w \<notin> set r" and rest: "list_all (\<lambda>(k, r). w \<notin> set r) fs"
    by simp_all
  have "w \<notin> set (replace k r s)"
    using r Cons.prems(2) by (rule replace_avoids)
  from Cons.IH [OF rest this] f show ?case
    by (simp del: replace_Cons)
qed

lemma match_tcode_parts:
  "match_tcode U s = Some (digits, rest) \<Longrightarrow> set digits \<union> set rest \<subseteq> set s"
proof -
  assume "match_tcode U s = Some (digits, rest)"
  then obtain s' where s: "s = SQ # 84 # s'" and d: "digits = takeWhile (is_digit U) s'"
    and r: "dropWhile (is_digit U) s' = SQ # rest"
    by (auto simp: match_tcode_def Let_def split: list.splits if_splits)
  have "set rest \<subseteq> set (dropWhile (is_digit U) s')"
    using r by auto
  then have "set rest \<subseteq> set s'"
    by (auto dest: set_dropWhileD)
  moreover have "set digits \<subseteq> set s'"
    using d by (auto dest: set_takeWhileD)
  ultimately show ?thesis
    using s by auto
qed

lemma sub_tcode_avoids:
  "w \<noteq> SQ \<Longrightarrow> w \<noteq> 84 \<Longrightarrow> w \<notin> set s \<Longrightarrow> w \<notin> set (sub_tcode U s)"
proof (induction U s rule: sub_tcode.induct)
  case (1 U)
  show ?case by simp
next
  case (2 U c s)
  show ?case
  proof (cases "match_tcode U (c # s)")
    case None
    with 2 show ?thesis by simp
  next
    case (Some m)
    obtain digits rest where m: "m = (digits, rest)" by (cases m)
    from Some m have "set digits \<union> set rest \<subseteq> set (c # s)"
      by (intro match_tcode_parts) simp
    with 2(5) have "w \<notin> set digits" "w \<notin> set rest" by auto
    with 2(2) [OF Some m [symmetric]] 2(3,4) Some m show ?thesis by simp
  qed
qed

lemma fix_quotes_avoids:
  "w \<noteq> SQ \<Longrightarrow> w \<notin> set s \<Longrightarrow> w \<notin> set (fix_quotes_and_special_chars s)"
proof (induction s rule: fix_quotes_and_special_chars.induct)
  case 1
  show ?case by simp
next
  case (2 c s)
  show ?case
  proof (cases "c = SQ \<and> scan_literal s \<noteq> None")
    case False
    with 2 show ?thesis by (auto split: option.splits)
  next
    case True
    then obtain content rest where sc: "scan_literal s = Some (content, rest)" by auto
    then have "s = content @ SQ # rest" by (rule scan_literal_split)
    with 2(5) have "w \<notin> set content" "w \<notin> set rest" by auto
    moreover have "w \<notin> set (replace [SQ] [SQ, SQ] content)"
      using \<open>w \<notin> set content\<close> 2(4) by (intro replace_avoids) simp_all
    moreover have "w \<notin> set (fix_quotes_and_special_chars rest)"
      using 2(2) [OF _ sc refl] True 2(4) \<open>w \<notin> set rest\<close> by simp
    ultimately show ?thesis
      using True sc 2(4) by (simp add: replace_quotes_in_string_def del: replace_Cons)
  qed
qed

lemma normalizer_avoids:
  assumes "is_space w" "w \<noteq> SPC"
  shows "w \<notin> set (fix_newlines_and_formatting values_content)"
proof -
  have "w < 32 \<or> 126 < w"
    using assms by (rule space_not_printable)
  then have "w \<notin> set (u ''(c)'')" "w \<notin> set (u ''(R)'')" "w \<notin> set (u ''(TM)'')"
    by auto
  then show ?thesis
    unfolding fix_newlines_and_formatting_def Let_def
    by (intro replace_avoids collapse_ws_avoids assms)
qed

lemma fix_apostrophes_avoids:
  assumes "w < 32 \<or> 126 < w" "w \<notin> set s"
  shows "w \<notin> set (fix_apostrophes s)"
proof -
  have "list_all (\<lambda>(k, r). w \<notin> set r) apostrophe_fixes"
    using assms(1) by (auto simp: apostrophe_fixes_def fix_of_def)
  then show ?thesis
    unfolding fix_apostrophes_def using assms(2) by (rule apply_fixes_avoids)
qed

lemma fix_business_terms_avoids:
  assumes "w < 32 \<or> 126 < w" "w \<notin> set s"
  shows "w \<notin> set (fix_business_terms U s)"
proof -
  have "w \<notin> set (u ''e&'')" "w \<notin> set (u ''UAE'' @ [SQ, SQ] @ u ''s'')"
    "w \<notin> set (u ''kids'' @ [SQ, SQ])" "w \<notin> set [SQ, SQ]" "w \<noteq> SQ" "w \<noteq> 84"
    using assms(1) by auto
  then show ?thesis
    unfolding fix_business_terms_def Let_def
    by (intro replace_avoids sub_tcode_avoids assms(2))
qed

lemma clean_values_avoids:
  assumes "is_space w" "w \<noteq> SPC"
  shows "w \<notin> set (clean_values U values_content)"
proof -
  have p: "w < 32 \<or> 126 < w"
    using assms by (rule space_not_printable)
  then have "w \<noteq> SQ" by auto
  then show ?thesis
    unfolding clean_values_def
    by (intro fix_quotes_avoids fix_business_terms_avoids fix_apostrophes_avoids
        normalizer_avoids assms p)
qed

lemma clean_values_one_line: "LF \<notin> set (clean_values U values_content)"
  by (rule clean_values_avoids) (simp_all add: is_space_def)

lemma clean_values_spaces: "set (filter is_space (clean_values U values_content)) \<subseteq> {SPC}"
  using clean_values_avoids [of _ U values_content] by auto

lemma not_suffix_rstrip_char: "\<not> suffix [c] (rstrip_char c s)"
proof
  assume "suffix [c] (rstrip_char c s)"
  then obtain p where "rstrip_char c s = p @ [c]"
    by (auto simp: suffix_def)
  then have "dropWhile (\<lambda>d. d = c) (rev s) = c # rev p"
    unfolding rstrip_char_def by (metis rev.simps(2) rev_rev_ident rev_swap)
  then show False
    by (metis (mono_tags, lifting) dropWhile_eq_Cons_conv)
qed

text \<open>
  Claim C7, as the code has it. The claim reads: for every table name and transformed
  values block the script contains exactly one \<^verbatim>\<open>INSERT INTO <table>\<close> statement. The
  script is a template filled with the values block as it is, so a values block that
  itself holds \<^verbatim>\<open>INSERT INTO\<close> brings a second one; this happens when the input is a whole
  statement in which no whitespace follows \<^verbatim>\<open>VALUES\<close>, which the extractor returns whole.
  What holds, for a table name and a column list on one line that hold no \<^verbatim>\<open>INSERT INTO\<close>
  themselves (the column list empty or in parentheses, as the code builds it) and for
  every values block that leaves the chain: the lines of the script in which the words
  \<^verbatim>\<open>INSERT INTO\<close> stand, in any letter case and anywhere in the line, are the statement
  line \<^verbatim>\<open>INSERT INTO <table> <columns> VALUES\<close>, in which nothing after these words holds them
  again; the line after it, exactly when the transformed values block holds them; and the
  line that prints the error message, whose text is
  \<^verbatim>\<open>Error occurred during insert into <table>\<close>. Only for a table name that begins with
  \<^verbatim>\<open>INTO\<close> do they also stand in the two \<^verbatim>\<open>SET IDENTITY_INSERT\<close> lines, where \<^verbatim>\<open>INSERT\<close> is
  the end of \<^verbatim>\<open>IDENTITY_INSERT\<close>. So the script of a transformed block that holds no
  \<^verbatim>\<open>INSERT INTO\<close> has one \<^verbatim>\<open>INSERT INTO\<close> statement, and every other script has the words
  in its values line as well. The transformed block holds no whitespace but spaces, so
  that words of the values line are separated by spaces only. The line after the
  statement line is the values block with its trailing commas stripped, closed by a
  semicolon; \<^verbatim>\<open>SET IDENTITY_INSERT <table> ON;\<close> is a line before the statement (the sixth
  line) and \<^verbatim>\<open>SET IDENTITY_INSERT <table> OFF;\<close> a line after it (the thirtieth); the script
  ends with the line \<^verbatim>\<open>SELECT TOP 5 * FROM <table> ORDER BY internal_id DESC;\<close>.
\<close>

theorem script_structure:
  assumes "LF \<notin> set detected_table" "LF \<notin> set column_list"
    and "\<not> holds_insert_into detected_table" "\<not> holds_insert_into column_list"
    and "column_list = [] \<or> hd column_list = 40"
  shows "filter holds_insert_into
           (split_on LF (sql_server_content detected_table column_list
              (clean_values U values_content))) =
           (if ci_literal (u ''INTO'') detected_table \<noteq> None
            then [u ''SET IDENTITY_INSERT '' @ detected_table @ u '' ON;''] else []) @
           [u ''    INSERT INTO '' @ detected_table @ u '' '' @ column_list @ u '' VALUES''] @
           (if holds_insert_into (clean_values U values_content)
            then [u ''    '' @ rstrip_char 44 (clean_values U values_content) @ u '';'']
            else []) @
           [u ''    PRINT '' @ [SQ] @ u ''Error occurred during insert into '' @ detected_table @
              [SQ] @ u '';''] @
           (if ci_literal (u ''INTO'') detected_table \<noteq> None
            then [u ''SET IDENTITY_INSERT '' @ detected_table @ u '' OFF;''] else []) \<and>
         \<not> holds_insert_into (detected_table @ u '' '' @ column_list @ u '' VALUES'') \<and>
         set (filter is_space (clean_values U values_content)) \<subseteq> {SPC} \<and>
         split_on LF (sql_server_content detected_table column_list
              (clean_values U values_content)) ! 5 =
           u ''SET IDENTITY_INSERT '' @ detected_table @ u '' ON;'' \<and>
         split_on LF (sql_server_content detected_table column_list
              (clean_values U values_content)) ! 13 =
           u ''    INSERT INTO '' @ detected_table @ u '' '' @ column_list @ u '' VALUES'' \<and>
         split_on LF (sql_server_content detected_table column_list
              (clean_values U values_content)) ! 14 =
           u ''    '' @ rstrip_char 44 (clean_values U values_content) @ u '';'' \<and>
         \<not> suffix [44] (rstrip_char 44 (clean_values U values_content)) \<and>
         split_on LF (sql_server_content detected_table column_list
              (clean_values U values_content)) ! 29 =
           u ''SET IDENTITY_INSERT '' @ detected_table @ u '' OFF;'' \<and>
         drop 34 (split_on LF (sql_server_content detected_table column_list
              (clean_values U values_content))) =
           [u ''SELECT TOP 5 * FROM '' @ detected_table @ u '' ORDER BY internal_id DESC;'', []]"
proof -
  let ?v = "clean_values U values_content"
  have s: "split_on LF (sql_server_content detected_table column_list ?v) =
      script_lines detected_table column_list ?v @ [[]]"
    using assms(1,2) clean_values_one_line by (rule script_lines_split)
  have i: "script_lines detected_table column_list ?v ! 5 =
        u ''SET IDENTITY_INSERT '' @ detected_table @ u '' ON;''"
    "script_lines detected_table column_list ?v ! 13 =
        u ''    INSERT INTO '' @ detected_table @ u '' '' @ column_list @ u '' VALUES''"
    "script_lines detected_table column_list ?v ! 14 = u ''    '' @ rstrip_char 44 ?v @ u '';''"
    "script_lines detected_table column_list ?v ! 29 =
        u ''SET IDENTITY_INSERT '' @ detected_table @ u '' OFF;''"
    "drop 34 (script_lines detected_table column_list ?v) =
        [u ''SELECT TOP 5 * FROM '' @ detected_table @ u '' ORDER BY internal_id DESC;'']"
    "length (script_lines detected_table column_list ?v) = 35"
    by (simp_all add: script_lines_def)
  show ?thesis
    unfolding s
    using script_lines_insert_into [OF assms(3), of column_list ?v]
      holds_statement_rest [OF assms(3,4,5)] clean_values_spaces [of U values_content]
      not_suffix_rstrip_char [of 44 ?v] i
    by (simp add: nth_append)
qed

lemmas eval_chain = clean_values_def fix_newlines_and_formatting_def is_space_def
  fix_apostrophes_def apostrophe_fixes_def fix_of_def fix_business_terms_def match_tcode_def
  is_digit_def replace_quotes_in_string_def

text \<open>
  The script for table \<^verbatim>\<open>CombinedBio\<close> and a block of two rows with a trailing comma, as the
  chain cleans it: the words stand in the statement line and in the error message only.
\<close>

theorem script_structure_witness:
  "clean_values ascii_only (u ''(1, 'a'), (2, 'it's'),'') =
     u ''(1, 'a'), (2, 'it'' @ [SQ, SQ] @ u ''s'),'' \<and>
   filter holds_insert_into
     (split_on LF (sql_server_content (u ''CombinedBio'') default_bio_columns
        (clean_values ascii_only (u ''(1, 'a'), (2, 'it's'),'')))) =
     [u ''    INSERT INTO CombinedBio '' @ default_bio_columns @ u '' VALUES'',
      u ''    PRINT '' @ [SQ] @ u ''Error occurred during insert into CombinedBio'' @ [SQ] @
        u '';''] \<and>
   split_on LF (sql_server_content (u ''CombinedBio'') default_bio_columns
        (clean_values ascii_only (u ''(1, 'a'), (2, 'it's'),''))) ! 5 =
     u ''SET IDENTITY_INSERT CombinedBio ON;'' \<and>
   split_on LF (sql_server_content (u ''CombinedBio'') default_bio_columns
        (clean_values ascii_only (u ''(1, 'a'), (2, 'it's'),''))) ! 14 =
     u ''    (1, 'a'), (2, 'it'' @ [SQ, SQ] @ u ''s');'' \<and>
   split_on LF (sql_server_content (u ''CombinedBio'') default_bio_columns
        (clean_values ascii_only (u ''(1, 'a'), (2, 'it's'),''))) ! 29 =
     u ''SET IDENTITY_INSERT CombinedBio OFF;'' \<and>
   drop 34 (split_on LF (sql_server_content (u ''CombinedBio'') default_bio_columns
        (clean_values ascii_only (u ''(1, 'a'), (2, 'it's'),'')))) =
     [u ''SELECT TOP 5 * FROM CombinedBio ORDER BY internal_id DESC;'', []]"
proof -
  have c: "clean_values ascii_only (u ''(1, 'a'), (2, 'it's'),'') =
      u ''(1, 'a'), (2, 'it'' @ [SQ, SQ] @ u ''s'),''"
    by (simp add: eval_chain)
  have h: "LF \<notin> set (u ''CombinedBio'')" "LF \<notin> set default_bio_columns"
    "\<not> holds_insert_into (u ''CombinedBio'')" "\<not> holds_insert_into default_bio_columns"
    "default_bio_columns = [] \<or> hd default_bio_columns = 40"
    by (simp_all add: default_bio_columns_def holds_insert_into_def ci_eq_def)
  have n: "\<not> holds_insert_into (clean_values ascii_only (u ''(1, 'a'), (2, 'it's'),''))"
    unfolding c by (simp add: holds_insert_into_def ci_eq_def)
  have t: "ci_literal (u ''INTO'') (u ''CombinedBio'') = None"
    by (simp add: ci_eq_def)
  have r: "rstrip_char 44 (clean_values ascii_only (u ''(1, 'a'), (2, 'it's'),'')) =
      u ''(1, 'a'), (2, 'it'' @ [SQ, SQ] @ u ''s')''"
    unfolding c by (simp add: rstrip_char_def)
  show ?thesis
    using c n t script_structure [OF h, of ascii_only "u ''(1, 'a'), (2, 'it's'),''"]
    unfolding r by simp
qed

text \<open>
  The input \<^verbatim>\<open>INSERT INTO Bio (a) VALUES(1);\<close>: the detector finds table \<^verbatim>\<open>Bio\<close> and column
  \<^verbatim>\<open>a\<close>, the extractor and the chain return the whole input, and the script holds the
  statement \<^verbatim>\<open>INSERT INTO Bio\<close> twice, in the statement line and in the values line.
\<close>

theorem script_two_inserts_counterexample:
  "detect_table_and_columns ascii_only (u ''CombinedAddons'') (u ''INSERT INTO Bio (a) VALUES(1);'') =
     (u ''Bio'', [u ''a'']) \<and>
   clean_values ascii_only (extract_and_clean_values (u ''INSERT INTO Bio (a) VALUES(1);'')) =
     u ''INSERT INTO Bio (a) VALUES(1);'' \<and>
   filter holds_insert_into
     (split_on LF (sql_server_content (u ''Bio'') (column_list_of (u ''Bio'') [u ''a''])
        (u ''INSERT INTO Bio (a) VALUES(1);''))) =
     [u ''    INSERT INTO Bio (a) VALUES'', u ''    INSERT INTO Bio (a) VALUES(1);;'',
      u ''    PRINT '' @ [SQ] @ u ''Error occurred during insert into Bio'' @ [SQ] @ u '';'']"
proof (intro conjI)
  show "detect_table_and_columns ascii_only (u ''CombinedAddons'')
      (u ''INSERT INTO Bio (a) VALUES(1);'') = (u ''Bio'', [u ''a''])"
    by (simp add: detect_table_and_columns_def match_insert_def ci_eq_def
      skip_backtick_def is_word_def is_space_def capitalize_def ascii_upper_def ascii_lower_def
      strip_char_def strip_def lstrip_def rstrip_def rstrip_char_def)
  show "clean_values ascii_only (extract_and_clean_values (u ''INSERT INTO Bio (a) VALUES(1);'')) =
     u ''INSERT INTO Bio (a) VALUES(1);''"
    by (simp add: extract_and_clean_values_def match_values_def ci_eq_def clean_values_def
      strip_def lstrip_def rstrip_def is_space_def
      fix_newlines_and_formatting_def fix_apostrophes_def apostrophe_fixes_def fix_of_def
      fix_business_terms_def match_tcode_def is_digit_def replace_quotes_in_string_def)
  show "filter holds_insert_into
     (split_on LF (sql_server_content (u ''Bio'') (column_list_of (u ''Bio'') [u ''a''])
        (u ''INSERT INTO Bio (a) VALUES(1);''))) =
     [u ''    INSERT INTO Bio (a) VALUES'', u ''    INSERT INTO Bio (a) VALUES(1);;'',
      u ''    PRINT '' @ [SQ] @ u ''Error occurred during insert into Bio'' @ [SQ] @ u '';'']"
  proof -
    have "split_on LF (sql_server_content (u ''Bio'') (column_list_of (u ''Bio'') [u ''a''])
        (u ''INSERT INTO Bio (a) VALUES(1);'')) =
      script_lines (u ''Bio'') (column_list_of (u ''Bio'') [u ''a''])
        (u ''INSERT INTO Bio (a) VALUES(1);'') @ [[]]"
      by (rule script_lines_split) (simp_all add: column_list_of_def)
    then show ?thesis
      by (simp add: column_list_of_def script_lines_def holds_insert_into_def ci_eq_def
          rstrip_char_def)
  qed
qed

subsection \<open>Failures of reading and writing\<close>

text \<open>
  Claim C8. When reading the input file raises \<^verbatim>\<open>FileNotFoundError\<close> or any other
  exception derived from \<^verbatim>\<open>Exception\<close> (as every I/O failure is), and when the input is
  read and writing the generated script to the output file raises such an exception,
  \<^verbatim>\<open>clean_sql_data\<close> returns \<^verbatim>\<open>False\<close> to its caller, no exception leaves it, nothing is
  recorded as written, and the last line printed on the console is the report of the
  error. When the write of that script succeeds, it returns \<^verbatim>\<open>True\<close> and the file written
  holds the script.
\<close>

theorem clean_sql_data_reports_failure:
  "(read_file fs input_file = Inl e \<and> derives_from_Exception e \<longrightarrow>
      returned (clean_sql_data U fs input_file output_file table_name) = Inr False \<and>
      written (clean_sql_data U fs input_file output_file table_name) = None \<and>
      last (console (clean_sql_data U fs input_file output_file table_name)) =
        (case e of
           FileNotFoundError m \<Rightarrow> u ''Error: File '' @ [SQ] @ input_file @ [SQ] @ u '' not found!''
         | _ \<Rightarrow> u ''Error reading file: '' @ exception_text e)) \<and>
   (read_file fs input_file = Inr content \<and>
    write_file fs output_file (generated_script U table_name content) = Some e \<and>
    derives_from_Exception e \<longrightarrow>
      returned (clean_sql_data U fs input_file output_file table_name) = Inr False \<and>
      written (clean_sql_data U fs input_file output_file table_name) = None \<and>
      last (console (clean_sql_data U fs input_file output_file table_name)) =
        u ''Error writing file: '' @ exception_text e) \<and>
   (read_file fs input_file = Inr content \<and>
    write_file fs output_file (generated_script U table_name content) = None \<longrightarrow>
      returned (clean_sql_data U fs input_file output_file table_name) = Inr True \<and>
      written (clean_sql_data U fs input_file output_file table_name) =
        Some (output_file, generated_script U table_name content))"
  by (cases e) (auto simp: clean_sql_data_def generated_script_def Let_def split: prod.splits)

lemma generated_script_not_empty: "generated_script U table_name content \<noteq> []"
  by (simp add: generated_script_def sql_server_content_def script_lines_def Let_def
      split: prod.splits)

text \<open>
  A missing input file; a file system on which writing any non-empty text fails for lack
  of space; and one on which the write succeeds.
\<close>

theorem clean_sql_data_reports_failure_witness:
  "returned (clean_sql_data ascii_only
      \<lparr>read_file = (\<lambda>p. Inl (FileNotFoundError (u ''No such file''))),
       write_file = (\<lambda>p c. None)\<rparr>
      (u ''in.txt'') (u ''out.sql'') (u ''CombinedAddons'')) = Inr False \<and>
   last (console (clean_sql_data ascii_only
      \<lparr>read_file = (\<lambda>p. Inl (FileNotFoundError (u ''No such file''))),
       write_file = (\<lambda>p c. None)\<rparr>
      (u ''in.txt'') (u ''out.sql'') (u ''CombinedAddons''))) =
     u ''Error: File 'in.txt' not found!'' \<and>
   returned (clean_sql_data ascii_only
      \<lparr>read_file = (\<lambda>p. Inr (u ''VALUES (1);'')),
       write_file = (\<lambda>p c. if c = [] then None
          else Some (OtherException (u ''No space left on device'')))\<rparr>
      (u ''in.txt'') (u ''out.sql'') (u ''CombinedAddons'')) = Inr False \<and>
   last (console (clean_sql_data ascii_only
      \<lparr>read_file = (\<lambda>p. Inr (u ''VALUES (1);'')),
       write_file = (\<lambda>p c. if c = [] then None
          else Some (OtherException (u ''No space left on device'')))\<rparr>
      (u ''in.txt'') (u ''out.sql'') (u ''CombinedAddons''))) =
     u ''Error writing file: No space left on device'' \<and>
   returned (clean_sql_data ascii_only
      \<lparr>read_file = (\<lambda>p. Inr (u ''VALUES (1);'')), write_file = (\<lambda>p c. None)\<rparr>
      (u ''in.txt'') (u ''out.sql'') (u ''CombinedAddons'')) = Inr True"
  using clean_sql_data_reports_failure
      [of "\<lparr>read_file = (\<lambda>p. Inl (FileNotFoundError (u ''No such file''))),
            write_file = (\<lambda>p c. None)\<rparr>"
          "u ''in.txt''" "FileNotFoundError (u ''No such file'')" ascii_only "u ''out.sql''"
          "u ''CombinedAddons''"]
    clean_sql_data_reports_failure
      [of "\<lparr>read_file = (\<lambda>p. Inr (u ''VALUES (1);'')),
            write_file = (\<lambda>p c. if c = [] then None
              else Some (OtherException (u ''No space left on device'')))\<rparr>"
          "u ''in.txt''" "OtherException (u ''No space left on device'')" ascii_only "u ''out.sql''"
          "u ''CombinedAddons''" "u ''VALUES (1);''"]
    clean_sql_data_reports_failure
      [of "\<lparr>read_file = (\<lambda>p. Inr (u ''VALUES (1);'')), write_file = (\<lambda>p c. None)\<rparr>"
          "u ''in.txt''" "OtherException []" ascii_only "u ''out.sql''"
          "u ''CombinedAddons''" "u ''VALUES (1);''"]
  by (simp add: generated_script_not_empty)

subsection \<open>The values extractor\<close>


























subsection \<open>The table and column detector\<close>










subsection \<open>The apostrophe fixer doubles the listed contractions\<close>

lemma replace_ne_skip:
  assumes "a \<noteq> []" "hd a \<notin> set b'"
  shows "replace_ne (a @ SQ # b) new (b' @ t) = b' @ replace_ne (a @ SQ # b) new t"
  using assms(2)
proof (induction b')
  case Nil
  show ?case by simp
next
  case (Cons x b')
  have "\<not> prefix (a @ SQ # b) (x # b' @ t)"
    using assms(1) Cons.prems by (cases a) auto
  with Cons show ?case by simp
qed

lemma prefix_first_quote:
  assumes "SQ \<notin> set a" "SQ \<notin> set s0" "prefix (a @ SQ # b) (s0 @ SQ # rest)"
  shows "a = s0 \<and> prefix b rest"
  using assms
proof (induction a arbitrary: s0)
  case Nil
  then show ?case by (cases s0) auto
next
  case (Cons x a)
  then show ?case by (cases s0) auto
qed

lemma replace_ne_segment:
  assumes "quote_split a b k" "SQ \<notin> set s0"
  shows "replace_ne k (a @ SQ # SQ # b) (s0 @ SQ # rest) =
           s0 @ (if suffix a s0 \<and> prefix b rest then [SQ, SQ] else [SQ]) @
           replace_ne k (a @ SQ # SQ # b) rest"
proof -
  from assms(1) have a: "a \<noteq> []" "SQ \<notin> set a" and b: "hd a \<notin> set b" and k: "k = a @ SQ # b"
    by (auto simp: quote_split_def)
  have hq: "hd a \<noteq> SQ"
    using a by (cases a) auto
  show ?thesis
    using assms(2)
  proof (induction s0)
    case Nil
    have "\<not> prefix k (SQ # rest)"
      using a hq k by (cases a) auto
    with a k show ?case by simp
  next
    case (Cons c s0)
    then have c: "c \<noteq> SQ" and s0: "SQ \<notin> set s0" by auto
    show ?case
    proof (cases "prefix k ((c # s0) @ SQ # rest)")
      case True
      with a(2) Cons.prems k have e: "a = c # s0" and p: "prefix b rest"
        using prefix_first_quote [of a "c # s0" b rest] by auto
      from p obtain rest' where r: "rest = b @ rest'"
        by (auto simp: prefix_def)
      have "drop (length k) ((c # s0) @ SQ # rest) = rest'"
        using e k r by simp
      moreover have "replace_ne k (a @ SQ # SQ # b) (b @ rest') =
          b @ replace_ne k (a @ SQ # SQ # b) rest'"
        unfolding k using a(1) b by (rule replace_ne_skip)
      ultimately show ?thesis
        using True e p r k by simp
    next
      case False
      have "\<not> (suffix a (c # s0) \<and> prefix b rest) \<or> suffix a s0"
      proof (cases "a = c # s0")
        case True
        with False k show ?thesis
          by (auto simp: prefix_def)
      next
        case ne: False
        then show ?thesis
          by (auto simp: suffix_Cons)
      qed
      then have "(suffix a (c # s0) \<and> prefix b rest) = (suffix a s0 \<and> prefix b rest)"
        by (auto simp: suffix_Cons)
      with False Cons.IH [OF s0] show ?thesis
        by simp
    qed
  qed
qed


lemma double_listed_plain: "SQ \<notin> set s \<Longrightarrow> double_listed fs before s = s"
  by (induction s arbitrary: before) auto

lemma double_listed_segment:
  "SQ \<notin> set s0 \<Longrightarrow>
   double_listed fs before (s0 @ SQ # rest) =
     s0 @ (if list_ex (\<lambda>(original, replacement). occurs_around original (before @ s0) rest) fs
           then [SQ, SQ] else [SQ]) @
     double_listed fs (before @ s0 @ [SQ]) rest"
  by (induction s0 arbitrary: before) auto

lemma suffix_after_quote:
  assumes "SQ \<notin> set a" "p = [] \<or> last p = SQ"
  shows "suffix a (p @ x) = suffix a x"
proof
  assume "suffix a (p @ x)"
  then consider "suffix a x" | a' where "suffix a' p" "a = a' @ x"
    by (auto simp: suffix_append)
  then show "suffix a x"
  proof cases
    case 1
    then show ?thesis .
  next
    case 2
    show ?thesis
    proof (cases "a' = []")
      case True
      with 2 show ?thesis by simp
    next
      case False
      with 2(1) have "last a' = last p" "p \<noteq> []"
        by (auto simp: suffix_def)
      with assms(2) False have "SQ \<in> set a'"
        by (metis last_in_set)
      with 2(2) assms(1) show ?thesis by simp
    qed
  qed
next
  assume "suffix a x"
  then show "suffix a (p @ x)"
    by (simp add: suffix_appendI)
qed

lemma occurs_around_after_quote:
  "p = [] \<or> last p = SQ \<Longrightarrow> occurs_around k (p @ x) y = occurs_around k x y"
proof -
  assume p: "p = [] \<or> last p = SQ"
  have "SQ \<notin> set (takeWhile (\<lambda>c. c \<noteq> SQ) k)"
    by (auto dest: set_takeWhileD)
  from suffix_after_quote [OF this p] show ?thesis
    by (simp add: occurs_around_def)
qed

lemma double_listed_after_quote:
  "p = [] \<or> last p = SQ \<Longrightarrow> double_listed fs (p @ x) s = double_listed fs x s"
proof (induction s arbitrary: x)
  case Nil
  show ?case by simp
next
  case (Cons c s)
  from Cons.IH [OF Cons.prems, of "x @ [c]"] show ?case
    by (simp add: occurs_around_after_quote [OF Cons.prems])
qed

lemma double_listed_first_segment:
  "takeWhile (\<lambda>c. c \<noteq> SQ) (double_listed fs before s) = takeWhile (\<lambda>c. c \<noteq> SQ) s"
  by (induction s arbitrary: before) auto

lemma prefix_quote_free:
  assumes "SQ \<notin> set b"
  shows "prefix b t \<longleftrightarrow> prefix b (takeWhile (\<lambda>c. c \<noteq> SQ) t)"
proof
  let ?tw = "takeWhile (\<lambda>c. c \<noteq> SQ) t" and ?dw = "dropWhile (\<lambda>c. c \<noteq> SQ) t"
  assume "prefix b t"
  then have "prefix b (?tw @ ?dw)" by simp
  then have "prefix b ?tw \<or> (\<exists>us. b = ?tw @ us \<and> prefix us ?dw)"
    by (simp only: prefix_append)
  then show "prefix b ?tw"
  proof
    assume "prefix b ?tw"
    then show ?thesis .
  next
    assume "\<exists>us. b = ?tw @ us \<and> prefix us ?dw"
    then obtain us where us: "b = ?tw @ us" "prefix us ?dw"
      by blast
    show ?thesis
    proof (cases us)
      case Nil
      with us show ?thesis by simp
    next
      case (Cons x us')
      with us(2) obtain dw' where dw: "?dw = x # dw'"
        by (cases ?dw) auto
      then have "\<not> x \<noteq> SQ"
        using hd_dropWhile [of "\<lambda>c. c \<noteq> SQ" t] by (metis list.sel(1) list.simps(3))
      with us(1) Cons assms show ?thesis by auto
    qed
  qed
next
  assume "prefix b (takeWhile (\<lambda>c. c \<noteq> SQ) t)"
  then show "prefix b t"
    by (metis prefix_order.trans takeWhile_is_prefix)
qed

lemma prefix_double_listed:
  "SQ \<notin> set b \<Longrightarrow> prefix b (double_listed fs before s) = prefix b s"
  using prefix_quote_free [of b "double_listed fs before s"] prefix_quote_free [of b s]
  by (simp add: double_listed_first_segment)

lemma occurs_around_split:
  assumes "quote_split a b k"
  shows "occurs_around k x y = (suffix a x \<and> prefix b y)"
proof -
  from assms have a: "SQ \<notin> set a" and k: "k = a @ SQ # b"
    by (auto simp: quote_split_def)
  have "takeWhile (\<lambda>c. c \<noteq> SQ) (a @ SQ # b) = a"
    using a by (induction a) auto
  moreover have "dropWhile (\<lambda>c. c \<noteq> SQ) (a @ SQ # b) = SQ # b"
    using a by (induction a) auto
  ultimately show ?thesis
    by (simp add: occurs_around_def k)
qed
lemma replace_ne_absent: "\<not> sublist old s \<Longrightarrow> replace_ne old new s = s"
  using replace_absent [of old s new] by (cases old) (auto simp: replace_def)

lemma replace_double_listed:
  assumes "quote_split a b k"
  shows "replace_ne k (a @ SQ # SQ # b) (double_listed fs [] text0) =
           double_listed (fs @ [(k, r)]) [] text0"
proof (induction "length text0" arbitrary: text0 rule: less_induct)
  case less
  from assms have a: "a \<noteq> []" and b: "b \<noteq> []" "SQ \<notin> set b" and k: "k = a @ SQ # b"
    by (auto simp: quote_split_def)
  let ?R = "replace_ne k (a @ SQ # SQ # b)"
  show ?case
  proof (cases "SQ \<in> set text0")
    case False
    then have "\<not> sublist k text0"
      using k by (auto dest: set_mono_sublist)
    with False show ?thesis
      by (simp add: double_listed_plain replace_ne_absent)
  next
    case True
    then obtain s0 rest where t: "text0 = s0 @ SQ # rest" and s0: "SQ \<notin> set s0"
      by (auto dest: split_list_first)
    let ?D = "double_listed fs [] rest"
    let ?H = "list_ex (\<lambda>(original, replacement). occurs_around original s0 rest) fs"
    have ctx: "double_listed fs' (s0 @ [SQ]) rest = double_listed fs' [] rest" for fs'
      using double_listed_after_quote [of "s0 @ [SQ]" fs' "[]" rest] by simp
    have IH: "?R ?D = double_listed (fs @ [(k, r)]) [] rest"
      using less [of rest] t by simp
    have lhs: "double_listed fs [] text0 = s0 @ (if ?H then [SQ, SQ] else [SQ]) @ ?D"
      using double_listed_segment [OF s0, of fs "[]" rest] t ctx by simp
    have rhs: "double_listed (fs @ [(k, r)]) [] text0 =
        s0 @ (if ?H \<or> (suffix a s0 \<and> prefix b rest) then [SQ, SQ] else [SQ]) @
        double_listed (fs @ [(k, r)]) [] rest"
      using double_listed_segment [OF s0, of "fs @ [(k, r)]" "[]" rest] t ctx
      by (simp add: occurs_around_split [OF assms])
    show ?thesis
    proof (cases ?H)
      case True
      have nb: "\<not> prefix b (SQ # ?D)"
        using b by (cases b) auto
      have "?R (s0 @ SQ # SQ # ?D) = s0 @ [SQ] @ ?R (SQ # ?D)"
        using replace_ne_segment [OF assms s0, of "SQ # ?D"] nb by simp
      moreover have "?R (SQ # ?D) = [SQ] @ ?R ?D"
        using replace_ne_segment [OF assms, of "[]" ?D] a by simp
      ultimately show ?thesis
        using True IH lhs rhs by simp
    next
      case False
      have "prefix b ?D = prefix b rest"
        using b(2) by (rule prefix_double_listed)
      then have "?R (s0 @ SQ # ?D) =
          s0 @ (if suffix a s0 \<and> prefix b rest then [SQ, SQ] else [SQ]) @ ?R ?D"
        using replace_ne_segment [OF assms s0, of ?D] by simp
      with False IH lhs rhs show ?thesis
        by simp
    qed
  qed
qed

lemma double_listed_none: "double_listed [] before s = s"
  by (induction s arbitrary: before) auto

lemma apply_fixes_double_listed:
  "list_all well_formed_fix todo \<Longrightarrow>
   apply_fixes todo (double_listed applied [] text0) = double_listed (applied @ todo) [] text0"
proof (induction todo arbitrary: applied)
  case Nil
  show ?case by simp
next
  case (Cons f todo)
  obtain k r where f: "f = (k, r)" by (cases f)
  let ?a = "takeWhile (\<lambda>c. c \<noteq> SQ) k" and ?b = "tl (dropWhile (\<lambda>c. c \<noteq> SQ) k)"
  from Cons.prems have wf: "well_formed_fix f" and todo: "list_all well_formed_fix todo"
    by simp_all
  from wf f have q: "quote_split ?a ?b k" and r: "r = ?a @ SQ # SQ # ?b"
    by (simp_all add: well_formed_fix_def Let_def)
  from q have "k \<noteq> []"
    by (auto simp: quote_split_def)
  then have "replace k r (double_listed applied [] text0) =
      replace_ne k r (double_listed applied [] text0)"
    by (simp add: replace_def)
  also have "\<dots> = double_listed (applied @ [(k, r)]) [] text0"
    unfolding r using q by (rule replace_double_listed)
  finally show ?case
    using Cons.IH [OF todo, of "applied @ [(k, r)]"] f by simp
qed

lemma apostrophe_fixes_well_formed: "list_all well_formed_fix apostrophe_fixes"
  by (simp add: apostrophe_fixes_def fix_of_def well_formed_fix_def quote_split_def)

text \<open>
  Claim C6. The apostrophe fixer writes twice every single quote that is the quote of an
  occurrence, in the input, of a contraction of its vocabulary in the listed form, and
  changes nothing else: every occurrence of a listed contraction comes out with its
  internal quote doubled. In particular each of the 36 listed contractions, taken alone,
  becomes its listed replacement.
\<close>

theorem fix_apostrophes_doubles_listed:
  "fix_apostrophes text0 = double_listed apostrophe_fixes [] text0 \<and>
   list_all (\<lambda>(original, replacement). fix_apostrophes original = replacement) apostrophe_fixes"
proof
  show "fix_apostrophes text0 = double_listed apostrophe_fixes [] text0"
    using apply_fixes_double_listed [OF apostrophe_fixes_well_formed, of "[]" text0]
    by (simp add: fix_apostrophes_def double_listed_none)
  show "list_all (\<lambda>(original, replacement). fix_apostrophes original = replacement)
      apostrophe_fixes"
    by (simp add: fix_apostrophes_def apostrophe_fixes_def fix_of_def)
qed

text \<open>
  Every \<^verbatim>\<open>don't\<close> and \<^verbatim>\<open>it's\<close> of a sentence is doubled; \<^verbatim>\<open>Bob's\<close>, which is not listed,
  is left as it is.
\<close>

theorem fix_apostrophes_doubles_listed_witness:
  "fix_apostrophes (u ''I don't know, it's Bob's, don't'') =
     u ''I don'' @ [SQ, SQ] @ u ''t know, it'' @ [SQ, SQ] @ u ''s Bob's, don'' @ [SQ, SQ] @ u ''t''"
  using fix_apostrophes_doubles_listed [of "u ''I don't know, it's Bob's, don't''"]
  by (simp add: occurs_around_def apostrophe_fixes_def fix_of_def suffix_to_prefix)

subsection \<open>Occurrences in another letter case\<close>

lemma double_listed_append:
  "double_listed fs p (x @ y) = double_upto fs p x y @ double_listed fs (p @ x) y"
  by (induction x arbitrary: p) auto

lemma double_listed_copy:
  "SQ \<notin> set b \<Longrightarrow> double_listed fs p (b @ y) = b @ double_listed fs (p @ b) y"
  by (induction b arbitrary: p) auto

lemma fix_apostrophes_positions:
  "fix_apostrophes text0 = double_listed apostrophe_fixes [] text0"
  using apply_fixes_double_listed [OF apostrophe_fixes_well_formed, of "[]" text0]
  by (simp add: fix_apostrophes_def double_listed_none)

text \<open>
  Claim C10, as the code has it. The claim reads: an occurrence of a contraction whose
  capitalization differs from the listed form is left unchanged. The replacement is a
  case-sensitive search for the listed forms as substrings, so such an occurrence is
  changed all the same when a listed form as written occurs at its quote (\<^verbatim>\<open>There's\<close>
  contains \<^verbatim>\<open>here's\<close>). What holds, occurrence by occurrence: when the input reads
  \<open>pre\<close>, \<open>a\<close>, a quote, \<open>b\<close>, \<open>post\<close>, with \<open>a\<close> and \<open>b\<close> free of quotes, and no listed
  form as written occurs at that quote, then \<open>a\<close>, the quote and \<open>b\<close> come out unchanged,
  between what the fixer makes of \<open>pre\<close> and of \<open>post\<close> (where the quotes of the listed
  occurrences are doubled, as everywhere); \<^verbatim>\<open>Don't\<close> is such an occurrence in any text.
  And a text in which none of the listed forms occurs as written, letter case included, is
  returned unchanged.
\<close>

theorem fix_apostrophes_exact_only:
  "(SQ \<notin> set a \<and> SQ \<notin> set b \<and>
    \<not> list_ex (\<lambda>(original, replacement). occurs_around original (pre @ a) (b @ post))
        apostrophe_fixes \<longrightarrow>
      fix_apostrophes (pre @ a @ [SQ] @ b @ post) =
        double_upto apostrophe_fixes [] pre (a @ [SQ] @ b @ post) @
        a @ [SQ] @ b @
        double_listed apostrophe_fixes (pre @ a @ [SQ] @ b) post) \<and>
   (list_all (\<lambda>(original, replacement). \<not> sublist original text0) apostrophe_fixes \<longrightarrow>
      fix_apostrophes text0 = text0)"
proof (intro conjI impI)
  assume h: "SQ \<notin> set a \<and> SQ \<notin> set b \<and>
    \<not> list_ex (\<lambda>(original, replacement). occurs_around original (pre @ a) (b @ post))
        apostrophe_fixes"
  let ?fs = apostrophe_fixes
  have "double_listed ?fs [] (pre @ a @ [SQ] @ b @ post) =
      double_upto ?fs [] pre (a @ [SQ] @ b @ post) @ double_listed ?fs pre (a @ SQ # b @ post)"
    using double_listed_append [of ?fs "[]" pre "a @ [SQ] @ b @ post"] by simp
  also have "double_listed ?fs pre (a @ SQ # b @ post) =
      a @ [SQ] @ double_listed ?fs (pre @ a @ [SQ]) (b @ post)"
    using h double_listed_segment [of a ?fs pre "b @ post"] by simp
  also have "double_listed ?fs (pre @ a @ [SQ]) (b @ post) =
      b @ double_listed ?fs ((pre @ a @ [SQ]) @ b) post"
    using h by (intro double_listed_copy) simp
  finally show "fix_apostrophes (pre @ a @ [SQ] @ b @ post) =
        double_upto apostrophe_fixes [] pre (a @ [SQ] @ b @ post) @
        a @ [SQ] @ b @
        double_listed apostrophe_fixes (pre @ a @ [SQ] @ b) post"
    by (simp add: fix_apostrophes_positions)
next
  assume "list_all (\<lambda>(original, replacement). \<not> sublist original text0) apostrophe_fixes"
  then show "fix_apostrophes text0 = text0"
    by (simp add: fix_apostrophes_def apply_fixes_absent)
qed

lemmas eval_occurs = occurs_around_def apostrophe_fixes_def fix_of_def suffix_to_prefix

text \<open>
  In \<^verbatim>\<open>I said: Don't say it's\<close> the capitalised \<^verbatim>\<open>Don't\<close> stays and the listed \<^verbatim>\<open>it's\<close> is
  doubled; \<^verbatim>\<open>Don't stop\<close> holds no listed form and is returned as it is.
\<close>

theorem fix_apostrophes_exact_only_witness:
  "fix_apostrophes (u ''I said: '' @ u ''Don'' @ [SQ] @ u ''t'' @ u '' say it's'') =
     u ''I said: Don't say it'' @ [SQ, SQ] @ u ''s'' \<and>
   list_all (\<lambda>(original, replacement). \<not> sublist original (u ''Don't stop''))
     apostrophe_fixes \<and>
   fix_apostrophes (u ''Don't stop'') = u ''Don't stop''"
proof -
  have "SQ \<notin> set (u ''Don'') \<and> SQ \<notin> set (u ''t'') \<and>
    \<not> list_ex (\<lambda>(original, replacement).
          occurs_around original (u ''I said: '' @ u ''Don'') (u ''t'' @ u '' say it's''))
        apostrophe_fixes"
    by (simp add: eval_occurs)
  moreover have "list_all (\<lambda>(original, replacement). \<not> sublist original (u ''Don't stop''))
      apostrophe_fixes"
    by (simp add: apostrophe_fixes_def fix_of_def sublist_code)
  ultimately show ?thesis
    using fix_apostrophes_exact_only [of "u ''Don''" "u ''t''" "u ''I said: ''" "u '' say it's''"
        "u ''Don't stop''"]
    by (simp add: eval_occurs)
qed

text \<open>
  \<^verbatim>\<open>There's\<close> differs from the listed \<^verbatim>\<open>there's\<close> by its capital and is rewritten: the
  listed \<^verbatim>\<open>here's\<close> occurs at its quote.
\<close>

theorem fix_apostrophes_capital_counterexample:
  "fix_apostrophes (u ''There's'') = u ''There'' @ [SQ, SQ] @ u ''s''"
  by (simp add: fix_apostrophes_def apostrophe_fixes_def fix_of_def)

end
